theory Spec2Isabelle
  imports Complex_Main "HOL-Library.Log_Nat" "HOL-Library.Word"
begin

section \<open>Go's float64\<close>

text \<open>
  Every number the icon code touches is a Go \<^verbatim>\<open>float64\<close>, an IEEE 754 binary64 value.
  A value is a signed finite magnitude (so that \<open>+0\<close> and \<open>-0\<close> are different values),
  a signed infinity, or NaN. The magnitude is an exact rational; each arithmetic operation
  computes the exact result and rounds it once, to nearest with ties to even, with 53
  significant bits, the smallest exponent \<open>-1074\<close> for the last bit (gradual underflow)
  and overflow to infinity from \<open>2 ^ 1024\<close> on. Operations are rounded one by one (no
  fused multiply-add).
\<close>

datatype float64 = Finite bool rat | Infinity bool | NaN

definition floor_log2 :: "rat \<Rightarrow> int" where
  "floor_log2 q = (case quotient_of q of (a, b) \<Rightarrow>
     let d = bitlen a - bitlen b in if 2 powi d \<le> q then d else d - 1)"

definition round_half_even :: "rat \<Rightarrow> int" where
  "round_half_even x = (let f = \<lfloor>x\<rfloor>; d = x - of_int f in
     if d < 1 / 2 then f else if 1 / 2 < d then f + 1 else if even f then f else f + 1)"

definition round_float64 :: "bool \<Rightarrow> rat \<Rightarrow> float64" where
  "round_float64 s q = (if q = 0 then Finite s 0 else
     let u = 2 powi (max (floor_log2 q - 52) (- 1074));
         r = of_int (round_half_even (q / u)) * u
     in if r < 2 ^ 1024 then Finite s r else Infinity s)"

text \<open>The values of the type that a float64 variable can hold: rounding leaves them alone.\<close>

fun is_float64 :: "float64 \<Rightarrow> bool" where
  "is_float64 (Finite s m) = (0 \<le> m \<and> round_float64 s m = Finite s m)"
| "is_float64 _ = True"

fun is_finite :: "float64 \<Rightarrow> bool" where
  "is_finite (Finite s m) = True"
| "is_finite _ = False"


text \<open>The number a finite value stands for (0 for the others, which have none).\<close>

fun valof :: "float64 \<Rightarrow> rat" where
  "valof (Finite s m) = (if s then - m else m)"
| "valof _ = 0"

fun f64_neg :: "float64 \<Rightarrow> float64" where
  "f64_neg (Finite s m) = Finite (\<not> s) m"
| "f64_neg (Infinity s) = Infinity (\<not> s)"
| "f64_neg NaN = NaN"

fun f64_mul :: "float64 \<Rightarrow> float64 \<Rightarrow> float64" where
  "f64_mul (Finite s m) (Finite t n) = round_float64 (s \<noteq> t) (m * n)"
| "f64_mul (Finite s m) (Infinity t) = (if m = 0 then NaN else Infinity (s \<noteq> t))"
| "f64_mul (Infinity s) (Finite t n) = (if n = 0 then NaN else Infinity (s \<noteq> t))"
| "f64_mul (Infinity s) (Infinity t) = Infinity (s \<noteq> t)"
| "f64_mul NaN y = NaN"
| "f64_mul x NaN = NaN"

fun f64_div :: "float64 \<Rightarrow> float64 \<Rightarrow> float64" where
  "f64_div (Finite s m) (Finite t n) =
     (if n = 0 then (if m = 0 then NaN else Infinity (s \<noteq> t))
      else round_float64 (s \<noteq> t) (m / n))"
| "f64_div (Finite s m) (Infinity t) = Finite (s \<noteq> t) 0"
| "f64_div (Infinity s) (Finite t n) = Infinity (s \<noteq> t)"
| "f64_div (Infinity s) (Infinity t) = NaN"
| "f64_div NaN y = NaN"
| "f64_div x NaN = NaN"

fun f64_add :: "float64 \<Rightarrow> float64 \<Rightarrow> float64" where
  "f64_add (Finite s m) (Finite t n) =
     (let v = valof (Finite s m) + valof (Finite t n)
      in if v = 0 then Finite (s \<and> t) 0 else round_float64 (v < 0) \<bar>v\<bar>)"
| "f64_add (Finite s m) (Infinity t) = Infinity t"
| "f64_add (Infinity s) (Finite t n) = Infinity s"
| "f64_add (Infinity s) (Infinity t) = (if s = t then Infinity s else NaN)"
| "f64_add NaN y = NaN"
| "f64_add x NaN = NaN"

definition f64_sub :: "float64 \<Rightarrow> float64 \<Rightarrow> float64" where
  "f64_sub x y = f64_add x (f64_neg y)"

text \<open>Go's \<^verbatim>\<open><\<close> and \<^verbatim>\<open>==\<close>: every comparison with NaN is false, and the two zeros are equal.\<close>

fun f64_lt :: "float64 \<Rightarrow> float64 \<Rightarrow> bool" where
  "f64_lt (Finite s m) (Finite t n) = (valof (Finite s m) < valof (Finite t n))"
| "f64_lt (Finite s m) (Infinity t) = (\<not> t)"
| "f64_lt (Infinity s) (Finite t n) = s"
| "f64_lt (Infinity s) (Infinity t) = (s \<and> \<not> t)"
| "f64_lt NaN y = False"
| "f64_lt x NaN = False"

fun f64_eq :: "float64 \<Rightarrow> float64 \<Rightarrow> bool" where
  "f64_eq (Finite s m) (Finite t n) = (valof (Finite s m) = valof (Finite t n))"
| "f64_eq (Infinity s) (Infinity t) = (s = t)"
| "f64_eq x y = False"

definition f64_of_int :: "int \<Rightarrow> float64" where
  "f64_of_int k = round_float64 (k < 0) (of_int \<bar>k\<bar>)"

text \<open>
  The conversion \<^verbatim>\<open>int(x)\<close> of a float64 to Go's \<^verbatim>\<open>int\<close> (64 bits) discards the fraction.
  Where the truncated value is not an \<^verbatim>\<open>int\<close> (also for NaN and the infinities) the
  language leaves the result to the implementation: the model returns \<open>None\<close>.
\<close>

fun int_of_float64 :: "float64 \<Rightarrow> int option" where
  "int_of_float64 (Finite s m) =
     (let k = (if s then - \<lfloor>m\<rfloor> else \<lfloor>m\<rfloor>)
      in if - (2 ^ 63) \<le> k \<and> k < 2 ^ 63 then Some k else None)"
| "int_of_float64 _ = None"

definition wrap_int :: "int \<Rightarrow> int" where
  "wrap_int k = (k + 2 ^ 63) mod 2 ^ 64 - 2 ^ 63"

section \<open>The matrix of package rasterx\<close>

text \<open>
  \<^verbatim>\<open>rasterx.Matrix2D\<close> is the affine matrix type of the rasteriser library the icon code
  imports; it is not part of the icon code. It has six float64 fields, the matrix being
  \<open>(A C E; B D F; 0 0 1)\<close>. \<^verbatim>\<open>Mult\<close> returns the product \<open>a \<cdot> b\<close>, each field computed in
  float64 from left to right, and \<^verbatim>\<open>Translate\<close> and \<^verbatim>\<open>Scale\<close> multiply the receiver by a
  translation or a scaling matrix from the right.
\<close>

record Matrix2D =
  A :: float64
  B :: float64
  C :: float64
  D :: float64
  E :: float64
  F :: float64

definition Mult :: "Matrix2D \<Rightarrow> Matrix2D \<Rightarrow> Matrix2D" where
  "Mult a b = \<lparr>
     A = f64_add (f64_mul (A a) (A b)) (f64_mul (C a) (B b)),
     B = f64_add (f64_mul (B a) (A b)) (f64_mul (D a) (B b)),
     C = f64_add (f64_mul (A a) (C b)) (f64_mul (C a) (D b)),
     D = f64_add (f64_mul (B a) (C b)) (f64_mul (D a) (D b)),
     E = f64_add (f64_add (f64_mul (A a) (E b)) (f64_mul (C a) (F b))) (E a),
     F = f64_add (f64_add (f64_mul (B a) (E b)) (f64_mul (D a) (F b))) (F a) \<rparr>"

definition Identity :: Matrix2D where
  "Identity = \<lparr> A = Finite False 1, B = Finite False 0, C = Finite False 0,
                 D = Finite False 1, E = Finite False 0, F = Finite False 0 \<rparr>"

definition Scale :: "Matrix2D \<Rightarrow> float64 \<Rightarrow> float64 \<Rightarrow> Matrix2D" where
  "Scale a x y = Mult a \<lparr> A = x, B = Finite False 0, C = Finite False 0,
                          D = y, E = Finite False 0, F = Finite False 0 \<rparr>"

definition Translate :: "Matrix2D \<Rightarrow> float64 \<Rightarrow> float64 \<Rightarrow> Matrix2D" where
  "Translate a x y = Mult a \<lparr> A = Finite False 1, B = Finite False 0, C = Finite False 0,
                              D = Finite False 1, E = x, F = y \<rparr>"

text \<open>Go's \<^verbatim>\<open>==\<close> on two matrices compares them field by field.\<close>

definition Matrix2D_eq :: "Matrix2D \<Rightarrow> Matrix2D \<Rightarrow> bool" where
  "Matrix2D_eq a b =
     (f64_eq (A a) (A b) \<and> f64_eq (B a) (B b) \<and> f64_eq (C a) (C b) \<and>
      f64_eq (D a) (D b) \<and> f64_eq (E a) (E b) \<and> f64_eq (F a) (F b))"

text \<open>Values, and matrices, of whole numbers of magnitude at most \<open>n\<close>.\<close>

definition whole_upto :: "int \<Rightarrow> float64 \<Rightarrow> bool" where
  "whole_upto n x =
     (is_float64 x \<and> is_finite x \<and> valof x = of_int \<lfloor>valof x\<rfloor> \<and> \<bar>\<lfloor>valof x\<rfloor>\<bar> \<le> n)"

definition whole_matrix :: "int \<Rightarrow> Matrix2D \<Rightarrow> bool" where
  "whole_matrix n a =
     (whole_upto n (A a) \<and> whole_upto n (B a) \<and> whole_upto n (C a) \<and>
      whole_upto n (D a) \<and> whole_upto n (E a) \<and> whole_upto n (F a))"

text \<open>
  A product, or a sum, of two float64 values is exact when the operands and the result are
  finite and the result is the product, or the sum, of the operands as rational numbers:
  the operation did not round. \<^verbatim>\<open>Mult\<close> is exact on two matrices when each product and
  each sum it computes for its six fields is.
\<close>

definition exact_mul :: "float64 \<Rightarrow> float64 \<Rightarrow> bool" where
  "exact_mul x y = (is_finite x \<and> is_finite y \<and> is_finite (f64_mul x y)
     \<and> valof (f64_mul x y) = valof x * valof y)"

definition exact_add :: "float64 \<Rightarrow> float64 \<Rightarrow> bool" where
  "exact_add x y = (is_finite x \<and> is_finite y \<and> is_finite (f64_add x y)
     \<and> valof (f64_add x y) = valof x + valof y)"

definition exact_dot2 :: "float64 \<Rightarrow> float64 \<Rightarrow> float64 \<Rightarrow> float64 \<Rightarrow> bool" where
  "exact_dot2 a b c d =
     (exact_mul a b \<and> exact_mul c d \<and> exact_add (f64_mul a b) (f64_mul c d))"

definition exact_dot3 :: "float64 \<Rightarrow> float64 \<Rightarrow> float64 \<Rightarrow> float64 \<Rightarrow> float64 \<Rightarrow> bool" where
  "exact_dot3 a b c d e =
     (exact_dot2 a b c d \<and> exact_add (f64_add (f64_mul a b) (f64_mul c d)) e)"

definition exact_Mult :: "Matrix2D \<Rightarrow> Matrix2D \<Rightarrow> bool" where
  "exact_Mult a b =
     (exact_dot2 (A a) (A b) (C a) (B b) \<and> exact_dot2 (B a) (A b) (D a) (B b) \<and>
      exact_dot2 (A a) (C b) (C a) (D b) \<and> exact_dot2 (B a) (C b) (D a) (D b) \<and>
      exact_dot3 (A a) (E b) (C a) (F b) (E a) \<and> exact_dot3 (B a) (E b) (D a) (F b) (F a))"

text \<open>The matrices of a translation and of a scaling, for the examples.\<close>

definition translation :: "rat \<Rightarrow> rat \<Rightarrow> Matrix2D" where
  "translation x y = \<lparr> A = Finite False 1, B = Finite False 0, C = Finite False 0,
     D = Finite False 1, E = Finite False x, F = Finite False y \<rparr>"

definition scaling :: "rat \<Rightarrow> rat \<Rightarrow> Matrix2D" where
  "scaling x y = \<lparr> A = Finite False x, B = Finite False 0, C = Finite False 0,
     D = Finite False y, E = Finite False 0, F = Finite False 0 \<rparr>"

section \<open>The pixel buffer of package image\<close>

text \<open>
  From the standard library: \<^verbatim>\<open>image.Rect\<close> orders its corners, \<^verbatim>\<open>Dx\<close> and \<^verbatim>\<open>Dy\<close> subtract
  them as \<^verbatim>\<open>int\<close>s, and \<^verbatim>\<open>image.NewRGBA\<close> allocates four zero bytes per pixel and panics
  when that number (\<^verbatim>\<open>mul3NonNeg\<close>) is negative or not an \<^verbatim>\<open>int\<close>. Running out of memory is
  not modelled. A render ends without an image in three ways: by that panic, by the panic
  of the rasteriser when it is made for a negative size, or at a conversion to \<^verbatim>\<open>int\<close>
  whose result the language does not define.
\<close>

type_synonym uint8 = "8 word"

record Rectangle =
  MinX :: int
  MinY :: int
  MaxX :: int
  MaxY :: int

definition Rect :: "int \<Rightarrow> int \<Rightarrow> int \<Rightarrow> int \<Rightarrow> Rectangle" where
  "Rect x0 y0 x1 y1 =
     (let (xa, xb) = (if x0 > x1 then (x1, x0) else (x0, x1));
          (ya, yb) = (if y0 > y1 then (y1, y0) else (y0, y1))
      in \<lparr> MinX = xa, MinY = ya, MaxX = xb, MaxY = yb \<rparr>)"

definition Dx :: "Rectangle \<Rightarrow> int" where
  "Dx r = wrap_int (MaxX r - MinX r)"

definition Dy :: "Rectangle \<Rightarrow> int" where
  "Dy r = wrap_int (MaxY r - MinY r)"

definition mul3NonNeg :: "int \<Rightarrow> int \<Rightarrow> int \<Rightarrow> int" where
  "mul3NonNeg x y z =
     (if x < 0 \<or> y < 0 \<or> z < 0 then - 1
      else if 2 ^ 64 \<le> x * y then - 1
      else if 2 ^ 64 \<le> x * y * z then - 1
      else if 2 ^ 63 \<le> x * y * z then - 1
      else x * y * z)"

datatype no_image = HugeOrNegativeDimensions | SliceBoundsOutOfRange | ImplementationDependentInt

record RGBA =
  Pix :: "uint8 list"
  Stride :: int
  Bounds :: Rectangle

definition NewRGBA :: "Rectangle \<Rightarrow> no_image + RGBA" where
  "NewRGBA r =
     (let totalLength = mul3NonNeg 4 (Dx r) (Dy r)
      in if totalLength < 0 then Inl HugeOrNegativeDimensions
         else Inr \<lparr> Pix = replicate (nat totalLength) 0, Stride = wrap_int (4 * Dx r),
                    Bounds = r \<rparr>)"

section \<open>The icon\<close>

text \<open>
  \<^verbatim>\<open>SvgIcon\<close>, with the anonymous struct of its view box as a record of its own. The types
  of gradients, definitions, paths and style attributes are declared elsewhere and stay
  type parameters.
\<close>

record viewbox =
  X :: float64
  Y :: float64
  W :: float64
  H :: float64

record ('g, 'd, 'p, 'c) SvgIcon =
  ViewBox :: viewbox
  Titles :: "string list"
  Descriptions :: "string list"
  Grads :: "string \<rightharpoonup> 'g"
  Defs :: "string \<rightharpoonup> 'd list"
  SVGPaths :: "'p list"
  Transform :: Matrix2D
  classes :: "string \<rightharpoonup> 'c"

text \<open>
  The rasteriser as the icon code sees it. \<^verbatim>\<open>rasterx.NewScannerGV\<close> makes a scanner for a
  width and a height over a destination image, of which it can write the pixels and
  nothing else, and a target rectangle; it sizes its sample buffer for the width and the
  height and panics (slice bounds out of range) when one of them is negative.
  \<^verbatim>\<open>rasterx.NewDasher\<close> wraps the scanner.
\<close>

record ScannerGV =
  ScanW :: int
  ScanH :: int
  Dest :: "uint8 list"
  Targ :: Rectangle

record Dasher =
  DasherW :: int
  DasherH :: int
  Scanner :: ScannerGV

text \<open>
  Modelled from the spec: \<^verbatim>\<open>SvgPath.DrawTransformed\<close>, which \<^verbatim>\<open>Draw\<close> calls and which is
  declared in another file of the package. By section 4.2 of the design it submits the
  geometry of one path, under a transform and an opacity, to the rasteriser, and its only
  effect is on the pixel state behind the rasteriser. It is a parameter \<open>dt\<close> of every
  function that draws: given a path, the rasteriser, an opacity and a matrix it returns
  the rasteriser after the path was drawn.
\<close>

type_synonym 'p drawer = "'p \<Rightarrow> Dasher \<Rightarrow> float64 \<Rightarrow> Matrix2D \<Rightarrow> Dasher"

definition NewScannerGV :: "int \<Rightarrow> int \<Rightarrow> RGBA \<Rightarrow> Rectangle \<Rightarrow> no_image + ScannerGV" where
  "NewScannerGV w h dest targ =
     (if w < 0 \<or> h < 0 then Inl SliceBoundsOutOfRange
      else Inr \<lparr> ScanW = w, ScanH = h, Dest = Pix dest, Targ = targ \<rparr>)"

definition NewDasher :: "int \<Rightarrow> int \<Rightarrow> ScannerGV \<Rightarrow> Dasher" where
  "NewDasher w h scanner = \<lparr> DasherW = w, DasherH = h, Scanner = scanner \<rparr>"

text \<open>The loop of \<^verbatim>\<open>Draw\<close> over the paths, in their order, each with the icon's transform.\<close>

definition Draw :: "'p drawer \<Rightarrow> ('g, 'd, 'p, 'c) SvgIcon \<Rightarrow> Dasher \<Rightarrow> float64 \<Rightarrow> Dasher" where
  "Draw dt s r opacity = foldl (\<lambda>r svgp. dt svgp r opacity (Transform s)) r (SVGPaths s)"

text \<open>
  \<^verbatim>\<open>SetTarget\<close> and \<^verbatim>\<open>TransformIcon\<close> assign to the \<^verbatim>\<open>Transform\<close> field of the receiver:
  they return the icon after the call.
\<close>

definition SetTarget ::
  "('g, 'd, 'p, 'c) SvgIcon \<Rightarrow> float64 \<Rightarrow> float64 \<Rightarrow> float64 \<Rightarrow> float64 \<Rightarrow> ('g, 'd, 'p, 'c) SvgIcon" where
  "SetTarget s x y w h =
     (let scaleW = f64_div w (W (ViewBox s));
          scaleH = f64_div h (H (ViewBox s))
      in s\<lparr> Transform :=
              Scale (Translate Identity (f64_sub x (X (ViewBox s))) (f64_sub y (Y (ViewBox s))))
                scaleW scaleH \<rparr>)"

definition TransformIcon :: "('g, 'd, 'p, 'c) SvgIcon \<Rightarrow> Matrix2D \<Rightarrow> ('g, 'd, 'p, 'c) SvgIcon" where
  "TransformIcon s mtx = s\<lparr> Transform := Mult mtx (Transform s) \<rparr>"

text \<open>
  \<^verbatim>\<open>asImage\<close> of the newer file. The image is shared with the scanner, so what it
  returns has the pixels the drawing left.
\<close>

definition asImage :: "'p drawer \<Rightarrow> ('g, 'd, 'p, 'c) SvgIcon \<Rightarrow> int \<Rightarrow> int \<Rightarrow> no_image + RGBA" where
  "asImage dt s w h =
     (case NewRGBA (Rect 0 0 w h) of
        Inl p \<Rightarrow> Inl p
      | Inr img \<Rightarrow>
          (case NewScannerGV w h img (Bounds img) of
             Inl p \<Rightarrow> Inl p
           | Inr scannerGV \<Rightarrow>
               let raster = NewDasher w h scannerGV
               in Inr (img\<lparr> Pix := Dest (Scanner (Draw dt s raster (Finite False 1))) \<rparr>)))"

text \<open>
  \<^verbatim>\<open>AsImageResize\<close> of the newer file. The icon it returns is the receiver after the call:
  \<^verbatim>\<open>SetTarget\<close> has run before anything can panic.
\<close>

definition AsImageResize ::
  "'p drawer \<Rightarrow> ('g, 'd, 'p, 'c) SvgIcon \<Rightarrow> float64 \<Rightarrow> float64 \<Rightarrow> ('g, 'd, 'p, 'c) SvgIcon \<times> (no_image + RGBA)" where
  "AsImageResize dt s width0 height0 =
     (let width = (if f64_lt width0 (Finite False 1) then W (ViewBox s) else width0);
          height = (if f64_lt height0 (Finite False 1)
                    then (let sc = f64_div width (W (ViewBox s)) in f64_mul (H (ViewBox s)) sc)
                    else height0);
          s' = SetTarget s (Finite False 0) (Finite False 0) width height
      in case (int_of_float64 width, int_of_float64 height) of
           (Some w, Some h) \<Rightarrow> (s', asImage dt s' w h)
         | _ \<Rightarrow> (s', Inl ImplementationDependentInt))"

text \<open>\<^verbatim>\<open>AsImage()\<close> of the newer file: the natural size, the transform left as it is.\<close>

definition AsImage' :: "'p drawer \<Rightarrow> ('g, 'd, 'p, 'c) SvgIcon \<Rightarrow> no_image + RGBA" where
  "AsImage' dt s =
     (case (int_of_float64 (W (ViewBox s)), int_of_float64 (H (ViewBox s))) of
        (Some w, Some h) \<Rightarrow> asImage dt s w h
      | _ \<Rightarrow> Inl ImplementationDependentInt)"

text \<open>\<^verbatim>\<open>AsImage(width, height)\<close> of the older file, which has the buffer code inline.\<close>

definition AsImage ::
  "'p drawer \<Rightarrow> ('g, 'd, 'p, 'c) SvgIcon \<Rightarrow> float64 \<Rightarrow> float64 \<Rightarrow> ('g, 'd, 'p, 'c) SvgIcon \<times> (no_image + RGBA)" where
  "AsImage dt s width0 height0 =
     (let width = (if f64_lt width0 (Finite False 1) then W (ViewBox s) else width0);
          height = (if f64_lt height0 (Finite False 1)
                    then (let sc = f64_div width (W (ViewBox s)) in f64_mul (H (ViewBox s)) sc)
                    else height0);
          s' = SetTarget s (Finite False 0) (Finite False 0) width height
      in case (int_of_float64 width, int_of_float64 height) of
           (Some w, Some h) \<Rightarrow>
             (case NewRGBA (Rect 0 0 w h) of
                Inl p \<Rightarrow> (s', Inl p)
              | Inr img \<Rightarrow>
                  (case NewScannerGV w h img (Bounds img) of
                     Inl p \<Rightarrow> (s', Inl p)
                   | Inr scannerGV \<Rightarrow>
                       let raster = NewDasher w h scannerGV
                       in (s', Inr (img\<lparr> Pix :=
                             Dest (Scanner (Draw dt s' raster (Finite False 1))) \<rparr>))))
         | _ \<Rightarrow> (s', Inl ImplementationDependentInt))"

section \<open>Files, buffered writers and encoders\<close>

text \<open>
  What \<^verbatim>\<open>saveImage\<close> uses of packages os, bufio, image/png and image/jpeg. The file
  system holds the bytes of each file, the table of open descriptors, the paths that
  cannot be created and the room left on the device. \<^verbatim>\<open>os.Create\<close> truncates the file and
  opens a new descriptor; a write appends what fits and reports an error when not
  everything did; \<^verbatim>\<open>Close\<close> removes the descriptor.
\<close>

datatype go_error = PathError | ErrNoSpace | ErrClosed | ErrShortWrite | CodecError

record filesystem =
  files :: "string \<rightharpoonup> uint8 list"
  fds :: "(nat \<times> string) list"
  denied :: "string \<Rightarrow> bool"
  room :: nat

definition os_Create :: "filesystem \<Rightarrow> string \<Rightarrow> filesystem \<times> (go_error + nat)" where
  "os_Create fs name =
     (if denied fs name then (fs, Inl PathError)
      else let f = Suc (foldr max (map fst (fds fs)) 2)
           in (fs\<lparr> files := (files fs)(name \<mapsto> []), fds := (f, name) # fds fs \<rparr>, Inr f))"

definition file_Write ::
  "filesystem \<Rightarrow> nat \<Rightarrow> uint8 list \<Rightarrow> filesystem \<times> nat \<times> go_error option" where
  "file_Write fs f p =
     (case map_of (fds fs) f of
        None \<Rightarrow> (fs, 0, Some ErrClosed)
      | Some name \<Rightarrow>
          let n = min (length p) (room fs);
              old = (case files fs name of None \<Rightarrow> [] | Some bs \<Rightarrow> bs)
          in (fs\<lparr> files := (files fs)(name \<mapsto> old @ take n p), room := room fs - n \<rparr>,
              n, if n < length p then Some ErrNoSpace else None))"

definition file_Close :: "filesystem \<Rightarrow> nat \<Rightarrow> filesystem \<times> go_error option" where
  "file_Close fs f =
     (case map_of (fds fs) f of
        None \<Rightarrow> (fs, Some ErrClosed)
      | Some name \<Rightarrow> (fs\<lparr> fds := filter (\<lambda>e. fst e \<noteq> f) (fds fs) \<rparr>, None))"

text \<open>
  \<^verbatim>\<open>bufio.Writer\<close>: the underlying descriptor, the bytes not yet written and the sticky
  error. \<^verbatim>\<open>Flush\<close> writes the buffer out; \<^verbatim>\<open>Write\<close> loops while the data does not fit,
  writing directly when the buffer is empty and filling and flushing it otherwise.
\<close>

record Writer =
  wr :: nat
  buf :: "uint8 list"
  err :: "go_error option"

definition defaultBufSize :: nat where
  "defaultBufSize = 4096"

definition NewWriter :: "nat \<Rightarrow> Writer" where
  "NewWriter f = \<lparr> wr = f, buf = [], err = None \<rparr>"

definition Available :: "Writer \<Rightarrow> nat" where
  "Available b = defaultBufSize - length (buf b)"

definition Flush :: "filesystem \<Rightarrow> Writer \<Rightarrow> filesystem \<times> Writer \<times> go_error option" where
  "Flush fs b =
     (case err b of
        Some e \<Rightarrow> (fs, b, Some e)
      | None \<Rightarrow>
          if buf b = [] then (fs, b, None)
          else (case file_Write fs (wr b) (buf b) of (fs', n, e) \<Rightarrow>
                  (case (if n < length (buf b) \<and> e = None then Some ErrShortWrite else e) of
                     Some e' \<Rightarrow> (fs', b\<lparr> buf := drop n (buf b), err := Some e' \<rparr>, Some e')
                   | None \<Rightarrow> (fs', b\<lparr> buf := [] \<rparr>, None))))"

text \<open>Two facts the loop of \<^verbatim>\<open>Write\<close> needs to terminate.\<close>

lemma file_Write_result:
  "file_Write fs f p = (fs', n, e) \<Longrightarrow> (e = None \<longrightarrow> n = length p) \<and> n \<le> length p"
  by (auto simp: file_Write_def Let_def split: option.splits if_splits)

lemma Flush_result:
  "Flush fs b = (fs', b', e) \<Longrightarrow> err b = None \<Longrightarrow> (e = None \<and> buf b' = [] \<and> err b' = None) \<or> err b' \<noteq> None"
  by (auto simp: Flush_def split: option.splits if_splits prod.splits)

function bufio_Write ::
  "filesystem \<Rightarrow> Writer \<Rightarrow> uint8 list \<Rightarrow> filesystem \<times> Writer \<times> go_error option" where
  "bufio_Write fs b p =
     (if Available b < length p \<and> err b = None then
        (if buf b = [] then
           (case file_Write fs (wr b) p of (fs', n, e) \<Rightarrow>
              bufio_Write fs' (b\<lparr> err := e \<rparr>) (drop n p))
         else
           (let n = min (Available b) (length p);
                b1 = b\<lparr> buf := buf b @ take n p \<rparr>
            in case Flush fs b1 of (fs', b2, e) \<Rightarrow> bufio_Write fs' b2 (drop n p)))
      else (case err b of
              Some e \<Rightarrow> (fs, b, Some e)
            | None \<Rightarrow> (fs, b\<lparr> buf := buf b @ p \<rparr>, None)))"
  by pat_completeness auto
termination
  apply (relation "measure (\<lambda>(fs, b, p). if err b = None then 2 * length p + (if buf b = [] then 1 else 2) else 0)")
  apply simp
   apply (auto dest!: file_Write_result [OF sym] Flush_result [OF sym] split: if_splits)
  done

declare bufio_Write.simps [simp del]

text \<open>
  An encoder is known by the chunks it writes for an image and by the error it ends
  with, if any; it stops at the first write that fails. The two encoders are parameters.
\<close>

type_synonym encoder = "RGBA \<Rightarrow> uint8 list list \<times> go_error option"

record codecs =
  png_Encode :: encoder
  jpeg_Encode :: encoder

fun write_chunks ::
  "filesystem \<Rightarrow> Writer \<Rightarrow> uint8 list list \<Rightarrow> filesystem \<times> Writer \<times> go_error option" where
  "write_chunks fs b [] = (fs, b, None)"
| "write_chunks fs b (c # cs) =
     (case bufio_Write fs b c of
        (fs', b', Some e) \<Rightarrow> (fs', b', Some e)
      | (fs', b', None) \<Rightarrow> write_chunks fs' b' cs)"

definition Encode ::
  "encoder \<Rightarrow> filesystem \<Rightarrow> Writer \<Rightarrow> RGBA \<Rightarrow> filesystem \<times> Writer \<times> go_error option" where
  "Encode enc fs w m =
     (case enc m of (chunks, r) \<Rightarrow>
        (case write_chunks fs w chunks of
           (fs', w', Some e) \<Rightarrow> (fs', w', Some e)
         | (fs', w', None) \<Rightarrow> (fs', w', r)))"

definition saveImage ::
  "codecs \<Rightarrow> filesystem \<Rightarrow> string \<Rightarrow> RGBA \<Rightarrow> bool \<Rightarrow> filesystem \<times> go_error option" where
  "saveImage cs fs filePath m asPng =
     (case os_Create fs filePath of
        (fs0, Inl e) \<Rightarrow> (fs0, Some e)
      | (fs0, Inr f) \<Rightarrow>
          let w = NewWriter f
          in case (if asPng then Encode (png_Encode cs) fs0 w m
                   else Encode (jpeg_Encode cs) fs0 w m) of
               (fs1, w1, Some e) \<Rightarrow> (fst (file_Close fs1 f), Some e)
             | (fs1, w1, None) \<Rightarrow>
                 (case Flush fs1 w1 of
                    (fs2, w2, Some e) \<Rightarrow> (fst (file_Close fs2 f), Some e)
                  | (fs2, w2, None) \<Rightarrow> (fst (file_Close fs2 f), None)))"

text \<open>All the bytes the chosen encoder writes for an image, in order.\<close>

definition encoded :: "codecs \<Rightarrow> RGBA \<Rightarrow> bool \<Rightarrow> uint8 list" where
  "encoded cs m asPng = concat (fst ((if asPng then png_Encode cs else jpeg_Encode cs) m))"

text \<open>The callers of \<^verbatim>\<open>saveImage\<close>: two in the older file, four in the newer one.\<close>

definition SaveAsPng ::
  "'p drawer \<Rightarrow> codecs \<Rightarrow> filesystem \<Rightarrow> ('g, 'd, 'p, 'c) SvgIcon \<Rightarrow> string \<Rightarrow> float64 \<Rightarrow> float64
     \<Rightarrow> filesystem \<times> ('g, 'd, 'p, 'c) SvgIcon \<times> (no_image + go_error option)" where
  "SaveAsPng dt cs fs s filePath w h =
     (case AsImage dt s w h of
        (s', Inl p) \<Rightarrow> (fs, s', Inl p)
      | (s', Inr m) \<Rightarrow> (case saveImage cs fs filePath m True of (fs', r) \<Rightarrow> (fs', s', Inr r)))"

definition SaveAsJpeg ::
  "'p drawer \<Rightarrow> codecs \<Rightarrow> filesystem \<Rightarrow> ('g, 'd, 'p, 'c) SvgIcon \<Rightarrow> string \<Rightarrow> float64 \<Rightarrow> float64
     \<Rightarrow> filesystem \<times> ('g, 'd, 'p, 'c) SvgIcon \<times> (no_image + go_error option)" where
  "SaveAsJpeg dt cs fs s filePath w h =
     (case AsImage dt s w h of
        (s', Inl p) \<Rightarrow> (fs, s', Inl p)
      | (s', Inr m) \<Rightarrow> (case saveImage cs fs filePath m False of (fs', r) \<Rightarrow> (fs', s', Inr r)))"

definition SaveAsPngResized ::
  "'p drawer \<Rightarrow> codecs \<Rightarrow> filesystem \<Rightarrow> ('g, 'd, 'p, 'c) SvgIcon \<Rightarrow> string \<Rightarrow> float64 \<Rightarrow> float64
     \<Rightarrow> filesystem \<times> ('g, 'd, 'p, 'c) SvgIcon \<times> (no_image + go_error option)" where
  "SaveAsPngResized dt cs fs s filePath w h =
     (case AsImageResize dt s w h of
        (s', Inl p) \<Rightarrow> (fs, s', Inl p)
      | (s', Inr m) \<Rightarrow> (case saveImage cs fs filePath m True of (fs', r) \<Rightarrow> (fs', s', Inr r)))"

definition SaveAsJpegResized ::
  "'p drawer \<Rightarrow> codecs \<Rightarrow> filesystem \<Rightarrow> ('g, 'd, 'p, 'c) SvgIcon \<Rightarrow> string \<Rightarrow> float64 \<Rightarrow> float64
     \<Rightarrow> filesystem \<times> ('g, 'd, 'p, 'c) SvgIcon \<times> (no_image + go_error option)" where
  "SaveAsJpegResized dt cs fs s filePath w h =
     (case AsImageResize dt s w h of
        (s', Inl p) \<Rightarrow> (fs, s', Inl p)
      | (s', Inr m) \<Rightarrow> (case saveImage cs fs filePath m False of (fs', r) \<Rightarrow> (fs', s', Inr r)))"

definition SaveAsPng' ::
  "'p drawer \<Rightarrow> codecs \<Rightarrow> filesystem \<Rightarrow> ('g, 'd, 'p, 'c) SvgIcon \<Rightarrow> string
     \<Rightarrow> filesystem \<times> (no_image + go_error option)" where
  "SaveAsPng' dt cs fs s filePath =
     (case AsImage' dt s of
        Inl p \<Rightarrow> (fs, Inl p)
      | Inr m \<Rightarrow> (case saveImage cs fs filePath m True of (fs', r) \<Rightarrow> (fs', Inr r)))"

definition SaveAsJpeg' ::
  "'p drawer \<Rightarrow> codecs \<Rightarrow> filesystem \<Rightarrow> ('g, 'd, 'p, 'c) SvgIcon \<Rightarrow> string
     \<Rightarrow> filesystem \<times> (no_image + go_error option)" where
  "SaveAsJpeg' dt cs fs s filePath =
     (case AsImage' dt s of
        Inl p \<Rightarrow> (fs, Inl p)
      | Inr m \<Rightarrow> (case saveImage cs fs filePath m False of (fs', r) \<Rightarrow> (fs', Inr r)))"

section \<open>Notions for the statements\<close>

text \<open>
  The sizes a render resolves before it truncates them, read off the first lines of
  \<^verbatim>\<open>AsImage\<close> and \<^verbatim>\<open>AsImageResize\<close>, which are the same.
\<close>

definition resolved_width :: "('g, 'd, 'p, 'c) SvgIcon \<Rightarrow> float64 \<Rightarrow> float64" where
  "resolved_width s width0 = (if f64_lt width0 (Finite False 1) then W (ViewBox s) else width0)"

definition resolved_height :: "('g, 'd, 'p, 'c) SvgIcon \<Rightarrow> float64 \<Rightarrow> float64 \<Rightarrow> float64" where
  "resolved_height s width0 height0 =
     (if f64_lt height0 (Finite False 1)
      then f64_mul (H (ViewBox s)) (f64_div (resolved_width s width0) (W (ViewBox s)))
      else height0)"

text \<open>The width and height of the buffer a render returns, if it returns one.\<close>

definition buffer_size :: "no_image + RGBA \<Rightarrow> (int \<times> int) option" where
  "buffer_size r = (case r of Inl p \<Rightarrow> None | Inr img \<Rightarrow> Some (Dx (Bounds img), Dy (Bounds img)))"

text \<open>Concrete icons for the examples: one path, a given view box, a drawer that draws nothing.\<close>

definition no_draw :: "unit drawer" where
  "no_draw svgp r opacity m = r"

definition icon_of_viewbox :: "viewbox \<Rightarrow> (unit, unit, unit, unit) SvgIcon" where
  "icon_of_viewbox vb = \<lparr> ViewBox = vb, Titles = [], Descriptions = [], Grads = Map.empty,
     Defs = Map.empty, SVGPaths = [()], Transform = Identity, classes = Map.empty \<rparr>"

definition origin_viewbox :: "rat \<Rightarrow> rat \<Rightarrow> viewbox" where
  "origin_viewbox a b = \<lparr> X = Finite False 0, Y = Finite False 0, W = Finite False a, H = Finite False b \<rparr>"

text \<open>
  For the proofs about whole-number matrices: a value that stands for the integer \<open>k\<close>,
  of magnitude at most \<open>n\<close>, and the same matrix product on integers.
\<close>

definition whole_val :: "float64 \<Rightarrow> int \<Rightarrow> int \<Rightarrow> bool" where
  "whole_val x k n = (is_float64 x \<and> is_finite x \<and> valof x = of_int k \<and> \<bar>k\<bar> \<le> n)"

datatype imat = IMat int int int int int int

fun imult :: "imat \<Rightarrow> imat \<Rightarrow> imat" where
  "imult (IMat a b c d e f) (IMat a' b' c' d' e' f') =
     IMat (a * a' + c * b') (b * a' + d * b') (a * c' + c * d') (b * c' + d * d')
          (a * e' + c * f' + e) (b * e' + d * f' + f)"

fun whole_mat :: "Matrix2D \<Rightarrow> imat \<Rightarrow> int \<Rightarrow> bool" where
  "whole_mat m (IMat a b c d e f) n =
     (whole_val (A m) a n \<and> whole_val (B m) b n \<and> whole_val (C m) c n \<and>
      whole_val (D m) d n \<and> whole_val (E m) e n \<and> whole_val (F m) f n)"

text \<open>
  For the proofs about exact products: the entries of a finite matrix as rational numbers,
  and the same matrix product on rational numbers.
\<close>

datatype rmat = RMat rat rat rat rat rat rat

fun rmult :: "rmat \<Rightarrow> rmat \<Rightarrow> rmat" where
  "rmult (RMat a b c d e f) (RMat a' b' c' d' e' f') =
     RMat (a * a' + c * b') (b * a' + d * b') (a * c' + c * d') (b * c' + d * d')
          (a * e' + c * f' + e) (b * e' + d * f' + f)"

definition entries :: "Matrix2D \<Rightarrow> rmat" where
  "entries m = RMat (valof (A m)) (valof (B m)) (valof (C m)) (valof (D m)) (valof (E m)) (valof (F m))"

definition finite_matrix :: "Matrix2D \<Rightarrow> bool" where
  "finite_matrix m = (is_finite (A m) \<and> is_finite (B m) \<and> is_finite (C m) \<and>
     is_finite (D m) \<and> is_finite (E m) \<and> is_finite (F m))"

text \<open>A disk with room for 100 bytes, two encoders that write fixed bytes and an image.\<close>

definition empty_disk :: filesystem where
  "empty_disk = \<lparr> files = Map.empty, fds = [], denied = (\<lambda>name. False), room = 100 \<rparr>"

definition two_chunks :: codecs where
  "two_chunks = \<lparr> png_Encode = (\<lambda>m. ([[1, 2], [3]], None)),
                      jpeg_Encode = (\<lambda>m. ([[4]], None)) \<rparr>"

definition one_pixel :: RGBA where
  "one_pixel = \<lparr> Pix = [0, 0, 0, 0], Stride = 4, Bounds = Rect 0 0 1 1 \<rparr>"

section \<open>Rounding\<close>

text \<open>
  What the rounding function does, in the form the proofs below use: the exponent it picks
  is the one of the binade of its argument, values with at most 53 significant bits above
  the smallest exponent are left alone, and everything else goes to the nearest multiple
  of the last bit.
\<close>

lemma two_powi_pos [simp]: "0 < (2::rat) powi e"
  by simp

lemma two_powi_mono: "e \<le> f \<Longrightarrow> (2::rat) powi e \<le> 2 powi f"
  by (rule power_int_increasing) simp_all

lemma two_powi_strict_mono: "e < f \<Longrightarrow> (2::rat) powi e < 2 powi f"
  by (rule power_int_strict_increasing) simp_all

lemma two_powi_add: "(2::rat) powi (e + f) = 2 powi e * 2 powi f"
  by (rule power_int_add) simp

lemma two_powi_diff: "(2::rat) powi (e - f) = 2 powi e / 2 powi f"
  by (rule power_int_diff) simp

lemma two_powi_Suc: "(2::rat) powi (e + 1) = 2 * 2 powi e"
  by (simp add: two_powi_add)

lemma of_int_bitlen_bounds:
  assumes "0 < a"
  shows "(2::rat) powi (bitlen a - 1) \<le> of_int a" "of_int a < (2::rat) powi (bitlen a)"
proof -
  from assms have b: "2 ^ nat (bitlen a - 1) \<le> a" "a < 2 ^ nat (bitlen a)"
    using bitlen_bounds [of a] by simp_all
  have pos: "1 \<le> bitlen a" using assms by (simp add: bitlen_alt_def)
  have "(2::rat) powi (bitlen a - 1) = of_int (2 ^ nat (bitlen a - 1))"
    using pos by (simp add: power_int_nonneg_exp)
  also have "\<dots> \<le> of_int a" using b(1) by (simp only: of_int_le_iff)
  finally show "(2::rat) powi (bitlen a - 1) \<le> of_int a" .
  have "(of_int a :: rat) < of_int (2 ^ nat (bitlen a))"
    using b(2) by (simp only: of_int_less_iff)
  also have "\<dots> = 2 powi (bitlen a)"
    using pos by (simp add: power_int_nonneg_exp)
  finally show "of_int a < (2::rat) powi (bitlen a)" .
qed

lemma floor_log2_bounds:
  assumes "0 < q"
  shows "2 powi (floor_log2 q) \<le> q" "q < 2 powi (floor_log2 q + 1)"
proof -
  obtain a b where ab: "quotient_of q = (a, b)" by (cases "quotient_of q")
  then have b: "0 < b" and q: "q = of_int a / of_int b"
    by (simp_all add: quotient_of_denom_pos quotient_of_div)
  have a: "0 < a" using assms b by (simp add: q zero_less_divide_iff)
  define d where "d = bitlen a - bitlen b"
  note A = of_int_bitlen_bounds [OF a] and B = of_int_bitlen_bounds [OF b]
  have bpos: "0 < (of_int b :: rat)" using b by simp
  have "q < 2 powi (bitlen a) / 2 powi (bitlen b - 1)"
    unfolding q using A(2) B(1) a
    by (intro frac_less) simp_all
  also have "\<dots> = 2 powi (d + 1)"
    by (simp add: d_def flip: two_powi_diff) (simp add: algebra_simps)
  finally have up: "q < 2 powi (d + 1)" .
  have "2 powi (d - 1) = (2::rat) powi (bitlen a - 1) / 2 powi (bitlen b)"
    by (simp add: d_def flip: two_powi_diff) (simp add: algebra_simps)
  also have "\<dots> \<le> q"
    unfolding q using A(1) B(2) bpos a
    by (intro frac_le) simp_all
  finally have low: "2 powi (d - 1) \<le> q" .
  have fl: "floor_log2 q = (if 2 powi d \<le> q then d else d - 1)"
    by (simp add: floor_log2_def ab d_def Let_def)
  show "2 powi (floor_log2 q) \<le> q" using low by (simp add: fl)
  show "q < 2 powi (floor_log2 q + 1)" using up by (auto simp add: fl not_le)
qed

lemma floor_log2_unique:
  assumes "2 powi e \<le> q" "q < 2 powi (e + 1)"
  shows "floor_log2 q = e"
proof -
  have q: "0 < q" using assms(1) two_powi_pos [of e] by linarith
  note fb = floor_log2_bounds [OF q]
  have "(2::rat) powi e < 2 powi (floor_log2 q + 1)" using assms(1) fb(2) by linarith
  then have 1: "e < floor_log2 q + 1"
    by (metis not_less two_powi_mono)
  have "(2::rat) powi (floor_log2 q) < 2 powi (e + 1)" using assms(2) fb(1) by linarith
  then have 2: "floor_log2 q < e + 1"
    by (metis not_less two_powi_mono)
  from 1 2 show ?thesis by simp
qed

lemma round_half_even_of_int: "round_half_even (of_int k) = k"
  by (simp add: round_half_even_def)

lemma round_half_even_near:
  assumes "\<bar>x - of_int k\<bar> < 1 / 2"
  shows "round_half_even x = k"
proof -
  have lo: "of_int k - 1 / 2 < x" and hi: "x < of_int k + 1 / 2"
    using assms by linarith+
  show ?thesis
  proof (cases "of_int k \<le> x")
    case True
    then have f: "\<lfloor>x\<rfloor> = k" using hi by (intro floor_unique) linarith+
    have "x - of_int k < 1 / 2" using hi by linarith
    then show ?thesis by (simp add: round_half_even_def f)
  next
    case False
    then have f: "\<lfloor>x\<rfloor> = k - 1" using lo by (intro floor_unique) (simp, linarith)+
    have "1 / 2 < x - of_int (k - 1)" using lo by simp
    then show ?thesis by (simp add: round_half_even_def f Let_def)
  qed
qed

lemma round_half_even_tie:
  assumes "x = of_int k + 1 / 2"
  shows "round_half_even x = (if even k then k else k + 1)"
proof -
  have f: "\<lfloor>x\<rfloor> = k" unfolding assms by (rule floor_unique) simp_all
  show ?thesis by (simp add: round_half_even_def f Let_def) (simp add: assms)
qed

lemma round_half_even_error: "\<bar>of_int (round_half_even x) - x\<bar> \<le> 1 / 2"
proof -
  have "of_int \<lfloor>x\<rfloor> \<le> x" "x < of_int \<lfloor>x\<rfloor> + 1" by linarith+
  then show ?thesis
    by (auto simp: round_half_even_def Let_def abs_le_iff)
qed

lemma round_float64_eq:
  assumes "2 powi e \<le> q" "q < 2 powi (e + 1)"
  shows "round_float64 s q =
     (let u = 2 powi (max (e - 52) (- 1074));
          r = of_int (round_half_even (q / u)) * u
      in if r < 2 ^ 1024 then Finite s r else Infinity s)"
proof -
  have "0 < q" using assms(1) two_powi_pos [of e] by linarith
  then show ?thesis
    by (simp add: round_float64_def floor_log2_unique [OF assms])
qed

lemma round_float64_exact:
  assumes k: "0 < k" "k < 2 ^ 53" and e: "- 1074 \<le> e"
    and top: "of_int k * 2 powi e < (2::rat) ^ 1024"
  shows "round_float64 s (of_int k * 2 powi e) = Finite s (of_int k * 2 powi e)"
proof -
  define q :: rat where "q = of_int k * 2 powi e"
  have q: "0 < q" using k by (simp add: q_def)
  define g where "g = max (floor_log2 q - 52) (- 1074)"
  have "(of_int k :: rat) < of_int (2 ^ 53)" using k(2) by (simp only: of_int_less_iff)
  then have "q < 2 ^ 53 * 2 powi e" by (simp add: q_def)
  also have "\<dots> = 2 powi (e + 53)" by (simp add: two_powi_add)
  finally have "2 powi (floor_log2 q) < (2::rat) powi (e + 53)"
    using floor_log2_bounds(1) [OF q] by linarith
  then have "floor_log2 q < e + 53" by (metis not_less two_powi_mono)
  then have g: "g \<le> e" using e by (simp add: g_def)
  have "q / 2 powi g = of_int k * 2 powi (e - g)"
    by (simp add: q_def two_powi_diff)
  also have "\<dots> = of_int (k * 2 ^ nat (e - g))"
    using g by (simp add: power_int_nonneg_exp)
  finally have "round_half_even (q / 2 powi g) = k * 2 ^ nat (e - g)"
    by (simp only: round_half_even_of_int)
  then have "of_int (round_half_even (q / 2 powi g)) * 2 powi g = of_int k * 2 powi (e - g) * 2 powi g"
    using g by (simp add: power_int_nonneg_exp)
  also have "\<dots> = q" by (simp add: q_def two_powi_diff)
  finally have r: "of_int (round_half_even (q / 2 powi g)) * 2 powi g = q" .
  have "round_float64 s q = Finite s q"
    using q top by (simp add: round_float64_def Let_def r flip: g_def) (simp add: q_def)
  then show ?thesis by (simp add: q_def)
qed

lemma round_float64_of_int:
  assumes "0 \<le> k" "k \<le> 2 ^ 53"
  shows "round_float64 s (of_int k) = Finite s (of_int k)"
proof -
  consider "k = 0" | "0 < k" "k < 2 ^ 53" | "k = 2 ^ 53" using assms by fastforce
  then show ?thesis
  proof cases
    case 1
    then show ?thesis by (simp add: round_float64_def)
  next
    case 2
    have "(of_int k :: rat) < of_int (2 ^ 53)" using 2(2) by (simp only: of_int_less_iff)
    then have "(of_int k :: rat) * 2 powi 0 < 2 ^ 1024" by simp
    with round_float64_exact [OF 2, of 0 s] show ?thesis by simp
  next
    case 3
    have "round_float64 s (of_int 1 * 2 powi 53) = Finite s (of_int 1 * 2 powi 53)"
      by (rule round_float64_exact) simp_all
    then show ?thesis by (simp add: 3)
  qed
qed

lemma round_float64_near:
  assumes "2 powi e \<le> q" "q < 2 powi (e + 1)" "- 1022 \<le> e"
    and near: "\<bar>q / 2 powi (e - 52) - of_int k\<bar> < 1 / 2"
    and top: "of_int k * 2 powi (e - 52) < (2::rat) ^ 1024"
  shows "round_float64 s q = Finite s (of_int k * 2 powi (e - 52))"
proof -
  have m: "max (e - 52) (- 1074) = e - 52" using assms(3) by simp
  show ?thesis
    unfolding round_float64_eq [OF assms(1,2)] m Let_def round_half_even_near [OF near]
    using top by simp
qed

lemma round_float64_tie:
  assumes "2 powi e \<le> q" "q < 2 powi (e + 1)" "- 1022 \<le> e"
    and tie: "q / 2 powi (e - 52) = of_int k + 1 / 2" "even k"
    and top: "of_int k * 2 powi (e - 52) < (2::rat) ^ 1024"
  shows "round_float64 s q = Finite s (of_int k * 2 powi (e - 52))"
proof -
  have m: "max (e - 52) (- 1074) = e - 52" using assms(3) by simp
  show ?thesis
    unfolding round_float64_eq [OF assms(1,2)] m Let_def round_half_even_tie [OF tie(1)]
    using top tie(2) by simp
qed

lemma round_float64_one: "round_float64 s 1 = Finite s 1"
  using round_float64_of_int [of 1 s] by simp

lemma is_float64_of_int: "0 \<le> k \<Longrightarrow> k \<le> 2 ^ 53 \<Longrightarrow> is_float64 (Finite s (of_int k))"
  by (simp add: round_float64_of_int)

lemma round_float64_numeral:
  "numeral n \<le> (2::int) ^ 53 \<Longrightarrow> round_float64 s (numeral n) = Finite s (numeral n)"
  using round_float64_of_int [of "numeral n" s] by simp

lemma round_float64_zero: "round_float64 s 0 = Finite s 0"
  by (simp add: round_float64_def)

text \<open>
  So the values rounding leaves alone are the float64 numbers: zero and the \<open>k \<cdot> 2\<^sup>e\<close> below
  \<open>2\<^sup>1\<^sup>0\<^sup>2\<^sup>4\<close> with \<open>k\<close> of at most 53 bits and \<open>e\<close> from \<open>-1074\<close> on.
\<close>

lemma is_float64_dyadic:
  assumes "0 < k" "k < 2 ^ 53" "- 1074 \<le> e" "of_int k * 2 powi e < (2::rat) ^ 1024"
  shows "is_float64 (Finite s (of_int k * 2 powi e))"
  using round_float64_exact [OF assms] assms(1) by simp

lemma is_float64_form:
  assumes "is_float64 (Finite s m)" "m \<noteq> 0"
  obtains k e where "m = of_int k * 2 powi e" "0 < k" "k \<le> 2 ^ 53" "- 1074 \<le> e" "m < 2 ^ 1024"
proof -
  from assms have pos: "0 < m" by simp
  define g where "g = max (floor_log2 m - 52) (- 1074)"
  define k where "k = round_half_even (m / 2 powi g)"
  from assms have fixp: "of_int k * 2 powi g = m" and top: "m < 2 ^ 1024"
    by (auto simp: round_float64_def Let_def k_def g_def split: if_splits)
  have k0: "0 < k"
  proof (rule ccontr)
    assume "\<not> 0 < k"
    then have "(of_int k :: rat) \<le> 0" by simp
    then have "of_int k * 2 powi g \<le> (0::rat)" by (simp add: mult_le_0_iff)
    with fixp pos show False by simp
  qed
  have "m < 2 powi (floor_log2 m + 1)" using floor_log2_bounds(2) [OF pos] .
  also have "\<dots> \<le> 2 powi (g + 53)" by (rule two_powi_mono) (simp add: g_def)
  also have "\<dots> = 2 ^ 53 * 2 powi g" by (simp add: two_powi_add)
  finally have "of_int k * 2 powi g < 2 ^ 53 * (2::rat) powi g" by (simp only: fixp)
  then have "(of_int k :: rat) < 2 ^ 53" by simp
  then have "(of_int k :: rat) < of_int (2 ^ 53)" by simp
  then have "k < 2 ^ 53" by (simp only: of_int_less_iff)
  then have k53: "k \<le> 2 ^ 53" by simp
  have "- 1074 \<le> g" by (simp add: g_def)
  with fixp k0 k53 top that [of k g] show ?thesis by simp
qed

text \<open>
  The error of one rounding: half a unit in the last place, which is at most the
  \<open>2\<^sup>5\<^sup>3\<close>-th part of the argument, or half the smallest subnormal number.
\<close>

lemma round_half_even_nonneg: "0 \<le> x \<Longrightarrow> 0 \<le> round_half_even x"
  by (simp add: round_half_even_def Let_def)

lemma round_float64_error:
  assumes q: "0 \<le> q" "q \<le> 2 powi 1023"
  shows "\<exists>r. round_float64 s q = Finite s r \<and> 0 \<le> r
           \<and> \<bar>r - q\<bar> \<le> q / 2 ^ 53 + 2 powi (- 1075)"
proof (cases "q = 0")
  case True
  then show ?thesis by (simp add: round_float64_def)
next
  case False
  with q have pos: "0 < q" by simp
  define t :: rat where "t = 2 powi (- 1075)"
  define b :: rat where "b = 2 powi 1023"
  have t: "0 < t" by (simp only: t_def two_powi_pos)
  have t2: "2 powi (- 1074) = 2 * t"
    using two_powi_Suc [of "- 1075"] by (simp only: t_def) simp
  have "t \<le> 2 powi 0" unfolding t_def by (rule two_powi_mono) simp
  then have t1: "t \<le> 1" by simp
  have "2 powi 1 \<le> b" unfolding b_def by (rule two_powi_mono) simp
  then have b2: "2 \<le> b" by simp
  have top_eq: "(2::rat) ^ 1024 = 2 * b"
    using two_powi_Suc [of 1023] by (simp only: b_def power_int_numeral) simp
  define g where "g = max (floor_log2 q - 52) (- 1074)"
  define u :: rat where "u = 2 powi g"
  define r where "r = of_int (round_half_even (q / u)) * u"
  have u: "0 < u" by (simp add: u_def)
  have "u \<le> q / 2 ^ 52 + 2 * t"
  proof (cases "- 1074 \<le> floor_log2 q - 52")
    case True
    then have "u = 2 powi (floor_log2 q) / 2 ^ 52"
      by (simp add: u_def g_def two_powi_diff)
    also have "\<dots> \<le> q / 2 ^ 52"
      using floor_log2_bounds(1) [OF pos] by (simp add: divide_right_mono)
    finally show ?thesis using t by linarith
  next
    case False
    then have "g = - 1074" by (simp add: g_def)
    then have "u = 2 * t" by (simp only: u_def t2)
    moreover have "0 \<le> q / 2 ^ 52" using pos by simp
    ultimately show ?thesis by linarith
  qed
  then have half: "u / 2 \<le> q / 2 ^ 53 + t" by simp
  have "\<bar>of_int (round_half_even (q / u)) - q / u\<bar> * u \<le> 1 / 2 * u"
    using round_half_even_error [of "q / u"] u by (intro mult_right_mono) simp_all
  moreover have "\<bar>of_int (round_half_even (q / u)) - q / u\<bar> * u = \<bar>r - q\<bar>"
  proof -
    have "\<bar>of_int (round_half_even (q / u)) - q / u\<bar> * u
        = \<bar>(of_int (round_half_even (q / u)) - q / u) * u\<bar>"
      using u by (simp add: abs_mult)
    also have "(of_int (round_half_even (q / u)) - q / u) * u = r - q"
      using u by (simp add: r_def left_diff_distrib)
    finally show ?thesis .
  qed
  ultimately have err: "\<bar>r - q\<bar> \<le> u / 2" by simp
  have nonneg: "0 \<le> r"
    using pos u by (simp add: r_def round_half_even_nonneg)
  have "q / 2 ^ 53 \<le> b / 2 ^ 53" using q(2) by (simp add: b_def divide_right_mono)
  moreover have "b / 2 ^ 53 \<le> b / 4" using b2 by simp
  moreover have "q \<le> b" using q(2) by (simp only: b_def)
  ultimately have "r < 2 * b" using err half t1 b2 by linarith
  then have top: "r < 2 ^ 1024" by (simp only: top_eq)
  have "round_float64 s q = Finite s r"
    using False top unfolding round_float64_def Let_def r_def u_def g_def by (simp only: if_False if_True)
  with nonneg err half show ?thesis unfolding t_def by force
qed

section \<open>Buffer sizes\<close>

lemma wrap_int_id: "- (2 ^ 63) \<le> k \<Longrightarrow> k < 2 ^ 63 \<Longrightarrow> wrap_int k = k"
  by (simp add: wrap_int_def)

lemma NewRGBA_size:
  assumes "0 \<le> w" "0 \<le> h" "w < 2 ^ 62" "h < 2 ^ 63" "4 * w * h < 2 ^ 63"
  shows "\<exists>img. NewRGBA (Rect 0 0 w h) = Inr img \<and> Dx (Bounds img) = w \<and> Dy (Bounds img) = h"
proof -
  have dx: "Dx (Rect 0 0 w h) = w" and dy: "Dy (Rect 0 0 w h) = h"
    using assms by (simp_all add: Dx_def Dy_def Rect_def wrap_int_id)
  have "mul3NonNeg 4 w h = 4 * w * h"
    using assms by (simp add: mul3NonNeg_def)
  moreover have "0 \<le> 4 * w * h" using assms by simp
  ultimately show ?thesis
    by (simp add: NewRGBA_def dx dy Let_def)
qed

lemma asImage_size:
  assumes "0 \<le> w" "0 \<le> h" "w < 2 ^ 62" "h < 2 ^ 63" "4 * w * h < 2 ^ 63"
  shows "buffer_size (asImage dt s w h) = Some (w, h)"
proof -
  from NewRGBA_size [OF assms] obtain img where
    img: "NewRGBA (Rect 0 0 w h) = Inr img" "Dx (Bounds img) = w" "Dy (Bounds img) = h"
    by blast
  have "\<exists>sc. NewScannerGV w h img (Bounds img) = Inr sc"
    using assms(1,2) by (simp add: NewScannerGV_def)
  then show ?thesis
    using img by (auto simp: asImage_def buffer_size_def Let_def)
qed

text \<open>The two renders with explicit sizes are the same function, written twice.\<close>

lemma AsImageResize_eq_AsImage: "AsImageResize dt s w h = AsImage dt s w h"
  by (simp add: AsImageResize_def AsImage_def asImage_def Let_def split: option.splits sum.splits)

lemma AsImage_resolved:
  "AsImage dt s width0 height0 =
     (let s' = SetTarget s (Finite False 0) (Finite False 0) (resolved_width s width0)
                 (resolved_height s width0 height0)
      in case (int_of_float64 (resolved_width s width0),
               int_of_float64 (resolved_height s width0 height0)) of
           (Some w, Some h) \<Rightarrow> (s', asImage dt s' w h)
         | _ \<Rightarrow> (s', Inl ImplementationDependentInt))"
  by (simp add: AsImage_def asImage_def resolved_width_def resolved_height_def Let_def
      split: option.splits sum.splits)

lemma int_of_float64_pos:
  "0 \<le> m \<Longrightarrow> \<lfloor>m\<rfloor> < 2 ^ 63 \<Longrightarrow> int_of_float64 (Finite False m) = Some \<lfloor>m\<rfloor>"
  by (simp add: Let_def)

lemma size_bounds:
  fixes w h :: int
  assumes "1 \<le> w" "1 \<le> h" "4 * w * h < 2 ^ 63"
  shows "w < 2 ^ 62" "h < 2 ^ 63"
proof -
  define p where "p = w * h"
  have p: "4 * p < 2 ^ 63" using assms by (simp add: p_def)
  have "w * 1 \<le> w * h" using assms by (intro mult_left_mono) auto
  then have "w \<le> p" by (simp add: p_def)
  with p show "w < 2 ^ 62" by simp
  have "1 * h \<le> w * h" using assms by (intro mult_right_mono) auto
  then have "h \<le> p" by (simp add: p_def)
  with p show "h < 2 ^ 63" by simp
qed

lemma AsImage_explicit_size:
  assumes "1 \<le> m" "1 \<le> n" "4 * \<lfloor>m\<rfloor> * \<lfloor>n\<rfloor> < 2 ^ 63"
  shows "buffer_size (snd (AsImage dt s (Finite False m) (Finite False n))) = Some (\<lfloor>m\<rfloor>, \<lfloor>n\<rfloor>)"
proof -
  have fl: "1 \<le> \<lfloor>m\<rfloor>" "1 \<le> \<lfloor>n\<rfloor>" using assms by simp_all
  note b = size_bounds [OF fl assms(3)]
  have rw: "resolved_width s (Finite False m) = Finite False m"
    using assms by (simp add: resolved_width_def)
  have rh: "resolved_height s (Finite False m) (Finite False n) = Finite False n"
    using assms by (simp add: resolved_height_def)
  have iw: "int_of_float64 (Finite False m) = Some \<lfloor>m\<rfloor>"
    using assms b by (intro int_of_float64_pos) auto
  have ih: "int_of_float64 (Finite False n) = Some \<lfloor>n\<rfloor>"
    using assms b by (intro int_of_float64_pos) auto
  show ?thesis
    using fl b assms(3)
    by (simp add: AsImage_resolved rw rh iw ih asImage_size Let_def del: int_of_float64.simps)
qed

text \<open>
  Claim C1, as amended. A requested width and height of at least 1 are kept as they are,
  and the render returns a buffer of exactly their integer parts, provided its
  \<open>4 \<cdot> \<lfloor>w\<rfloor> \<cdot> \<lfloor>h\<rfloor>\<close> bytes can be indexed by an \<^verbatim>\<open>int\<close>. This holds whatever the
  view box is. (A positive size below 1 is not kept: see the counterexample.)
\<close>

theorem render_explicit_size:
  assumes "1 \<le> m" "1 \<le> n" "4 * \<lfloor>m\<rfloor> * \<lfloor>n\<rfloor> < 2 ^ 63"
  shows "buffer_size (snd (AsImage dt s (Finite False m) (Finite False n))) = Some (\<lfloor>m\<rfloor>, \<lfloor>n\<rfloor>)
       \<and> buffer_size (snd (AsImageResize dt s (Finite False m) (Finite False n))) = Some (\<lfloor>m\<rfloor>, \<lfloor>n\<rfloor>)"
  using AsImage_explicit_size [OF assms] by (simp add: AsImageResize_eq_AsImage)

text \<open>The theorem at the sizes 2.5 by 3: a buffer of 2 by 3 pixels.\<close>

theorem render_explicit_size_witness:
  "buffer_size (snd (AsImage no_draw (icon_of_viewbox (origin_viewbox 10 10))
      (Finite False (5 / 2)) (Finite False 3))) = Some (2, 3)"
proof -
  have "\<lfloor>5 / 2 :: rat\<rfloor> = 2" by (rule floor_unique) simp_all
  then show ?thesis
    using render_explicit_size [of "5 / 2" 3 no_draw "icon_of_viewbox (origin_viewbox 10 10)"] by simp
qed

text \<open>
  Claim C1 as stated fails below 1: the width 0.5 is strictly positive, its integer part
  is 0, and the render of a 10 by 10 icon returns a buffer 10 pixels wide, because
  \<^verbatim>\<open>width < 1\<close> selects the width of the view box.
\<close>

theorem render_half_counterexample:
  "f64_lt (Finite False 0) (Finite False (1 / 2)) \<and>
   buffer_size (snd (AsImage no_draw (icon_of_viewbox (origin_viewbox 10 10))
      (Finite False (1 / 2)) (Finite False 5))) = Some (10, 5)
   \<and> \<lfloor>valof (Finite False (1 / 2))\<rfloor> = 0"
proof -
  have "\<lfloor>1 / 2 :: rat\<rfloor> = 0" by (rule floor_unique) simp_all
  then show ?thesis
    by (simp add: AsImage_resolved resolved_width_def resolved_height_def icon_of_viewbox_def
        origin_viewbox_def asImage_size Let_def)
qed

section \<open>Transforms\<close>

text \<open>
  Claim C2. \<^verbatim>\<open>SetTarget\<close> overwrites the transform, whatever it was before, with the
  product of the identity, then the translation by \<open>(x - X, y - Y)\<close>, then the scaling by
  \<open>(w / W, h / H)\<close>: the translation matrix is the left factor and the scaling matrix the
  right one. No other field changes.
\<close>

theorem SetTarget_replaces:
  "SetTarget (s\<lparr> Transform := t0 \<rparr>) x y w h =
     s\<lparr> Transform :=
          Mult (Mult Identity \<lparr> A = Finite False 1, B = Finite False 0, C = Finite False 0,
                                 D = Finite False 1,
                                 E = f64_sub x (X (ViewBox s)), F = f64_sub y (Y (ViewBox s)) \<rparr>)
               \<lparr> A = f64_div w (W (ViewBox s)), B = Finite False 0, C = Finite False 0,
                  D = f64_div h (H (ViewBox s)), E = Finite False 0, F = Finite False 0 \<rparr> \<rparr>"
  by (simp add: SetTarget_def Scale_def Translate_def Let_def)

text \<open>
  Claim C6. \<^verbatim>\<open>TransformIcon\<close> multiplies the matrix it is given onto the current transform
  from the left and changes nothing else; after \<^verbatim>\<open>SetTarget\<close> the target mapping is the
  right factor of the result.
\<close>

theorem TransformIcon_composes:
  "TransformIcon s mtx = s\<lparr> Transform := Mult mtx (Transform s) \<rparr>
   \<and> Transform (TransformIcon (SetTarget s x y w h) mtx)
       = Mult mtx (Transform (SetTarget s x y w h))"
  by (simp add: TransformIcon_def)

section \<open>What a render does to the icon\<close>

lemma AsImage_fst:
  "fst (AsImage dt s w h) =
     SetTarget s (Finite False 0) (Finite False 0) (resolved_width s w) (resolved_height s w h)"
  by (simp add: AsImage_resolved Let_def split: option.splits)

text \<open>
  Claim C10. A render leaves behind the icon it was given with the transform that
  \<^verbatim>\<open>SetTarget(0, 0, width, height)\<close> computes for the resolved sizes, and with every other
  field as it was. This holds on every path, also when the buffer cannot be allocated.
\<close>

theorem render_frame:
  "fst (AsImage dt s w h) =
     s\<lparr> Transform := Transform (SetTarget s (Finite False 0) (Finite False 0)
                                   (resolved_width s w) (resolved_height s w h)) \<rparr>
   \<and> fst (AsImageResize dt s w h) = fst (AsImage dt s w h)
   \<and> ViewBox (fst (AsImage dt s w h)) = ViewBox s
   \<and> SVGPaths (fst (AsImage dt s w h)) = SVGPaths s
   \<and> Titles (fst (AsImage dt s w h)) = Titles s
   \<and> Descriptions (fst (AsImage dt s w h)) = Descriptions s
   \<and> Grads (fst (AsImage dt s w h)) = Grads s
   \<and> Defs (fst (AsImage dt s w h)) = Defs s
   \<and> classes (fst (AsImage dt s w h)) = classes s"
  by (simp add: AsImage_fst AsImageResize_eq_AsImage) (simp add: SetTarget_def Let_def)

text \<open>
  Claim C9. A second render with the same arguments, on the icon as the first render left
  it, returns the same buffer (and leaves the same icon): the first call changed the
  transform only, and the second overwrites it with the same matrix before it draws.
\<close>

theorem render_twice:
  "AsImage dt (fst (AsImage dt s w h)) w h = AsImage dt s w h
   \<and> AsImageResize dt (fst (AsImageResize dt s w h)) w h = AsImageResize dt s w h"
proof -
  let ?s' = "fst (AsImage dt s w h)"
  have vb: "ViewBox ?s' = ViewBox s" by (simp add: AsImage_fst SetTarget_def Let_def)
  have rw: "resolved_width ?s' w = resolved_width s w"
    by (simp add: resolved_width_def vb)
  have rh: "resolved_height ?s' w h = resolved_height s w h"
    by (simp add: resolved_height_def vb rw)
  have st: "SetTarget ?s' (Finite False 0) (Finite False 0) (resolved_width s w)
              (resolved_height s w h) = ?s'"
    by (simp add: AsImage_fst SetTarget_def Let_def)
  have "AsImage dt ?s' w h = AsImage dt s w h"
    unfolding AsImage_resolved [of dt ?s'] rw rh st
    by (simp add: AsImage_resolved [of dt s] Let_def split: option.splits)
  then show ?thesis by (simp add: AsImageResize_eq_AsImage)
qed

section \<open>The natural size\<close>

lemma f64_div_self: "m \<noteq> 0 \<Longrightarrow> f64_div (Finite s m) (Finite s m) = Finite False 1"
  by (simp add: round_float64_one)

lemma f64_mul_one: "is_float64 x \<Longrightarrow> f64_mul x (Finite False 1) = x"
  by (cases x) simp_all

lemma f64_positive:
  assumes "is_float64 x" "is_finite x" "f64_lt (Finite False 0) x"
  obtains m where "x = Finite False m" "0 < m"
  using assms by (cases x) (auto split: if_splits)

text \<open>
  Claim C5, as amended. With both sizes left at \<open>-1\<close> the render of an icon whose view box
  has a finite positive width \<open>W\<close> and height \<open>H\<close>, with \<open>\<lfloor>W\<rfloor> < 2\<^sup>6\<^sup>2\<close>, \<open>\<lfloor>H\<rfloor> < 2\<^sup>6\<^sup>3\<close> and
  \<open>4 \<cdot> \<lfloor>W\<rfloor> \<cdot> \<lfloor>H\<rfloor> < 2\<^sup>6\<^sup>3\<close> (the bytes of the buffer are indexed by an \<^verbatim>\<open>int\<close>), returns a
  buffer of \<open>\<lfloor>W\<rfloor>\<close> by \<open>\<lfloor>H\<rfloor>\<close> pixels: the width is the view box's, the scale is
  \<open>W / W = 1\<close> and the height is \<open>H \<cdot> 1 = H\<close>, both exactly. The same holds for
  \<^verbatim>\<open>AsImage()\<close> of the newer file.
\<close>

theorem render_natural_size:
  assumes W: "is_float64 (W (ViewBox s))" "is_finite (W (ViewBox s))"
             "f64_lt (Finite False 0) (W (ViewBox s))"
    and H: "is_float64 (H (ViewBox s))" "is_finite (H (ViewBox s))"
           "f64_lt (Finite False 0) (H (ViewBox s))"
    and fits: "\<lfloor>valof (W (ViewBox s))\<rfloor> < 2 ^ 62" "\<lfloor>valof (H (ViewBox s))\<rfloor> < 2 ^ 63"
              "4 * \<lfloor>valof (W (ViewBox s))\<rfloor> * \<lfloor>valof (H (ViewBox s))\<rfloor> < 2 ^ 63"
  shows "buffer_size (snd (AsImage dt s (Finite True 1) (Finite True 1)))
           = Some (\<lfloor>valof (W (ViewBox s))\<rfloor>, \<lfloor>valof (H (ViewBox s))\<rfloor>)
       \<and> buffer_size (snd (AsImageResize dt s (Finite True 1) (Finite True 1)))
           = Some (\<lfloor>valof (W (ViewBox s))\<rfloor>, \<lfloor>valof (H (ViewBox s))\<rfloor>)
       \<and> buffer_size (AsImage' dt s)
           = Some (\<lfloor>valof (W (ViewBox s))\<rfloor>, \<lfloor>valof (H (ViewBox s))\<rfloor>)"
proof -
  from W obtain mw where mw: "W (ViewBox s) = Finite False mw" "0 < mw" by (rule f64_positive)
  from H obtain mh where mh: "H (ViewBox s) = Finite False mh" "0 < mh" by (rule f64_positive)
  have rw: "resolved_width s (Finite True 1) = Finite False mw"
    by (simp add: resolved_width_def mw)
  have "f64_div (Finite False mw) (Finite False mw) = Finite False 1"
    using mw by (intro f64_div_self) simp
  moreover have "f64_mul (Finite False mh) (Finite False 1) = Finite False mh"
    using H(1) unfolding mh by (rule f64_mul_one)
  ultimately have rh: "resolved_height s (Finite True 1) (Finite True 1) = Finite False mh"
    by (simp add: resolved_height_def rw mw mh del: f64_div.simps f64_mul.simps)
  have iw: "int_of_float64 (Finite False mw) = Some \<lfloor>mw\<rfloor>"
    using mw fits by (intro int_of_float64_pos) auto
  have ih: "int_of_float64 (Finite False mh) = Some \<lfloor>mh\<rfloor>"
    using mh fits by (intro int_of_float64_pos) auto
  have sz: "buffer_size (asImage dt s' \<lfloor>mw\<rfloor> \<lfloor>mh\<rfloor>) = Some (\<lfloor>mw\<rfloor>, \<lfloor>mh\<rfloor>)"
    for s' :: "('a, 'b, 'c, 'd) SvgIcon"
  proof (rule asImage_size)
    show "0 \<le> \<lfloor>mw\<rfloor>" "0 \<le> \<lfloor>mh\<rfloor>" using mw mh by simp_all
    show "\<lfloor>mw\<rfloor> < 2 ^ 62" "\<lfloor>mh\<rfloor> < 2 ^ 63" "4 * \<lfloor>mw\<rfloor> * \<lfloor>mh\<rfloor> < 2 ^ 63"
      using fits by (simp_all add: mw mh)
  qed
  have "buffer_size (snd (AsImage dt s (Finite True 1) (Finite True 1))) = Some (\<lfloor>mw\<rfloor>, \<lfloor>mh\<rfloor>)"
    by (simp add: AsImage_resolved rw rh iw ih sz Let_def del: int_of_float64.simps)
  moreover have "buffer_size (AsImage' dt s) = Some (\<lfloor>mw\<rfloor>, \<lfloor>mh\<rfloor>)"
    by (simp add: AsImage'_def mw mh iw ih sz del: int_of_float64.simps)
  ultimately show ?thesis by (simp add: AsImageResize_eq_AsImage mw mh)
qed

text \<open>The theorem at a view box of 10 by 20: a buffer of 10 by 20 pixels.\<close>

theorem render_natural_size_witness:
  "buffer_size (snd (AsImage no_draw (icon_of_viewbox (origin_viewbox 10 20))
      (Finite True 1) (Finite True 1))) = Some (10, 20)
   \<and> buffer_size (snd (AsImageResize no_draw (icon_of_viewbox (origin_viewbox 10 20))
      (Finite True 1) (Finite True 1))) = Some (10, 20)
   \<and> buffer_size (AsImage' no_draw (icon_of_viewbox (origin_viewbox 10 20))) = Some (10, 20)"
  using render_natural_size [of "icon_of_viewbox (origin_viewbox 10 20)" no_draw]
  by (simp add: icon_of_viewbox_def origin_viewbox_def round_float64_numeral)

text \<open>
  Claim C5 as stated fails: the view box of \<open>2\<^sup>3\<^sup>1\<close> by \<open>2\<^sup>3\<^sup>1\<close> has a finite positive width
  and height, and the render with both sizes left at \<open>-1\<close> returns no buffer:
  \<^verbatim>\<open>image.NewRGBA\<close> panics, the \<open>4 \<cdot> 2\<^sup>3\<^sup>1 \<cdot> 2\<^sup>3\<^sup>1 = 2\<^sup>6\<^sup>4\<close> bytes of the buffer being more than
  an \<^verbatim>\<open>int\<close> counts.
\<close>

theorem render_natural_size_counterexample:
  "is_float64 (W (ViewBox (icon_of_viewbox (origin_viewbox 2147483648 2147483648))))
   \<and> is_finite (W (ViewBox (icon_of_viewbox (origin_viewbox 2147483648 2147483648))))
   \<and> f64_lt (Finite False 0) (W (ViewBox (icon_of_viewbox (origin_viewbox 2147483648 2147483648))))
   \<and> f64_lt (Finite False 0) (H (ViewBox (icon_of_viewbox (origin_viewbox 2147483648 2147483648))))
   \<and> \<lfloor>valof (W (ViewBox (icon_of_viewbox (origin_viewbox 2147483648 2147483648))))\<rfloor> = 2147483648
   \<and> \<lfloor>valof (H (ViewBox (icon_of_viewbox (origin_viewbox 2147483648 2147483648))))\<rfloor> = 2147483648
   \<and> snd (AsImage no_draw (icon_of_viewbox (origin_viewbox 2147483648 2147483648))
        (Finite True 1) (Finite True 1)) = Inl HugeOrNegativeDimensions
   \<and> snd (AsImageResize no_draw (icon_of_viewbox (origin_viewbox 2147483648 2147483648))
        (Finite True 1) (Finite True 1)) = Inl HugeOrNegativeDimensions
   \<and> AsImage' no_draw (icon_of_viewbox (origin_viewbox 2147483648 2147483648))
        = Inl HugeOrNegativeDimensions
   \<and> buffer_size (snd (AsImage no_draw (icon_of_viewbox (origin_viewbox 2147483648 2147483648))
        (Finite True 1) (Finite True 1))) = None"
proof -
  let ?s = "icon_of_viewbox (origin_viewbox 2147483648 2147483648)"
  have vb: "W (ViewBox ?s) = Finite False 2147483648" "H (ViewBox ?s) = Finite False 2147483648"
    by (simp_all add: icon_of_viewbox_def origin_viewbox_def)
  have rw: "resolved_width ?s (Finite True 1) = Finite False 2147483648"
    by (simp add: resolved_width_def vb)
  have rh: "resolved_height ?s (Finite True 1) (Finite True 1) = Finite False 2147483648"
    by (simp add: resolved_height_def rw vb round_float64_one round_float64_numeral)
  have i: "int_of_float64 (Finite False 2147483648) = Some 2147483648"
    by simp
  have huge: "asImage no_draw s' 2147483648 2147483648 = Inl HugeOrNegativeDimensions"
    for s' :: "(unit, unit, unit, unit) SvgIcon"
    by (simp add: asImage_def NewRGBA_def Rect_def Dx_def Dy_def wrap_int_def mul3NonNeg_def Let_def)
  have "snd (AsImage no_draw ?s (Finite True 1) (Finite True 1)) = Inl HugeOrNegativeDimensions"
    by (simp add: AsImage_resolved rw rh i huge Let_def del: int_of_float64.simps)
  moreover have "AsImage' no_draw ?s = Inl HugeOrNegativeDimensions"
    by (simp add: AsImage'_def vb i huge del: int_of_float64.simps)
  ultimately show ?thesis
    by (simp add: AsImageResize_eq_AsImage vb round_float64_numeral buffer_size_def)
qed

section \<open>A view box without width\<close>











section \<open>The height derived from the width\<close>

lemma is_float64_bound: "is_float64 (Finite s m) \<Longrightarrow> 0 \<le> m \<and> m < 2 ^ 1024"
  by (auto simp: round_float64_def Let_def split: if_splits)

lemma floor_diff_le_one:
  fixes x y :: rat
  assumes "\<bar>x - y\<bar> < 1"
  shows "\<bar>\<lfloor>x\<rfloor> - \<lfloor>y\<rfloor>\<bar> \<le> 1"
proof -
  have "x \<le> y + 1" "y \<le> x + 1" using assms by linarith+
  then have "\<lfloor>x\<rfloor> \<le> \<lfloor>y + 1\<rfloor>" "\<lfloor>y\<rfloor> \<le> \<lfloor>x + 1\<rfloor>" by (simp_all only: floor_mono)
  then show ?thesis by simp
qed

lemma scaled_height_error:
  assumes vw: "0 < vw" and vh: "is_float64 (Finite False vh)"
    and m: "0 \<le> m" "m / vw \<le> 2 ^ 1023" and ex: "vh * m / vw < 2 ^ 30"
  shows "\<exists>r. f64_mul (Finite False vh) (f64_div (Finite False m) (Finite False vw)) = Finite False r
           \<and> 0 \<le> r \<and> \<bar>r - vh * m / vw\<bar> \<le> 1 / 2"
proof -
  define t :: rat where "t = 2 powi (- 1075)"
  have t: "0 < t" by (simp only: t_def two_powi_pos)
  have "t \<le> 2 powi (- 3)" unfolding t_def by (rule two_powi_mono) simp
  then have t8: "t \<le> 1 / 8" by simp
  from vh have vh0: "0 \<le> vh" and vhtop: "vh < 2 ^ 1024" using is_float64_bound by blast+
  have "vh * t \<le> 2 powi 1024 * 2 powi (- 1075)"
    unfolding t_def using vhtop vh0 by (intro mult_mono) (simp_all only: power_int_numeral, simp_all)
  also have "\<dots> = 2 powi (- 51)" by (simp only: two_powi_add [symmetric]) simp
  also have "\<dots> \<le> 2 powi (- 3)" by (rule two_powi_mono) simp
  finally have vht: "vh * t \<le> 1 / 8" by simp
  define q1 where "q1 = m / vw"
  have q1: "0 \<le> q1" "q1 \<le> 2 powi 1023" using m vw by (simp_all add: q1_def)
  from round_float64_error [OF q1, of False] obtain c where
    c: "round_float64 False q1 = Finite False c" "0 \<le> c" "\<bar>c - q1\<bar> \<le> q1 / 2 ^ 53 + t"
    unfolding t_def by blast
  have sc: "f64_div (Finite False m) (Finite False vw) = Finite False c"
    using vw c(1) by (simp add: q1_def)
  define ex where "ex = vh * m / vw"
  have exq: "ex = vh * q1" by (simp add: ex_def q1_def)
  have ex0: "0 \<le> ex" using vh0 q1(1) by (simp add: exq)
  have ex30: "ex < 2 ^ 30" using assms(5) by (simp add: ex_def)
  have "\<bar>vh * c - ex\<bar> = vh * \<bar>c - q1\<bar>"
    using vh0 by (simp add: exq abs_mult flip: right_diff_distrib)
  also have "\<dots> \<le> vh * (q1 / 2 ^ 53 + t)"
    using c(3) vh0 by (rule mult_left_mono)
  also have "\<dots> = ex / 2 ^ 53 + vh * t" by (simp add: exq algebra_simps)
  finally have e1: "\<bar>vh * c - ex\<bar> \<le> ex / 2 ^ 53 + vh * t" .
  have exs: "ex / 2 ^ 53 \<le> 1 / 8" using ex30 by simp
  have q2: "0 \<le> vh * c" using vh0 c(2) by simp
  have q2b: "vh * c \<le> 2 ^ 30 + 1" using e1 exs vht ex30 by linarith
  have "(2::rat) ^ 30 + 1 \<le> 2 ^ 31" by simp
  also have "\<dots> = 2 powi 31" by (simp only: power_int_numeral)
  also have "\<dots> \<le> 2 powi 1023" by (rule two_powi_mono) simp
  finally have q2top: "vh * c \<le> 2 powi 1023" using q2b by linarith
  from round_float64_error [OF q2 q2top, of False] obtain r where
    r: "round_float64 False (vh * c) = Finite False r" "0 \<le> r"
       "\<bar>r - vh * c\<bar> \<le> vh * c / 2 ^ 53 + t"
    unfolding t_def by blast
  have "vh * c / 2 ^ 53 \<le> (2 ^ 30 + 1) / 2 ^ 53" using q2b by (simp only: divide_right_mono zero_le_power zero_le_numeral)
  also have "\<dots> \<le> 1 / 8" by simp
  finally have e2: "\<bar>r - vh * c\<bar> \<le> 1 / 8 + t" using r(3) by linarith
  have "\<bar>r - ex\<bar> \<le> 1 / 2" using e1 e2 exs vht t8 by linarith
  moreover have "f64_mul (Finite False vh) (f64_div (Finite False m) (Finite False vw)) = Finite False r"
    unfolding sc using r(1) by simp
  ultimately show ?thesis using r(2) unfolding ex_def by blast
qed


text \<open>
  Claim C4, as amended. With a width of at least 1 and the height left at \<open>-1\<close>, the
  render of an icon with a view box of positive width \<open>vw\<close> and height \<open>vh\<close> returns a buffer
  as wide as the integer part of the width and as high as the integer part of the float64
  value \<^verbatim>\<open>H * (width / W)\<close>, which is rounded after the division and again after the
  multiplication. That height is within one pixel of \<open>\<lfloor>vh \<cdot> width / vw\<rfloor>\<close>, and need not be
  equal to it. The sizes are below \<open>2\<^sup>3\<^sup>0\<close> and the scale does not overflow.
\<close>

theorem render_derived_height:
  assumes W: "W (ViewBox s) = Finite False vw" "0 < vw"
    and H: "H (ViewBox s) = Finite False vh" "is_float64 (H (ViewBox s))"
    and m: "1 \<le> m" "m < 2 ^ 30" "m / vw \<le> 2 ^ 1023"
    and ex: "vh * m / vw < 2 ^ 30"
  shows "buffer_size (snd (AsImage dt s (Finite False m) (Finite True 1)))
           = Some (\<lfloor>m\<rfloor>, \<lfloor>valof (f64_mul (H (ViewBox s)) (f64_div (Finite False m) (W (ViewBox s))))\<rfloor>)
       \<and> buffer_size (snd (AsImageResize dt s (Finite False m) (Finite True 1)))
           = Some (\<lfloor>m\<rfloor>, \<lfloor>valof (f64_mul (H (ViewBox s)) (f64_div (Finite False m) (W (ViewBox s))))\<rfloor>)
       \<and> \<bar>\<lfloor>valof (f64_mul (H (ViewBox s)) (f64_div (Finite False m) (W (ViewBox s))))\<rfloor>
            - \<lfloor>vh * m / vw\<rfloor>\<bar> \<le> 1"
proof -
  have m0: "0 \<le> m" using m(1) by simp
  from scaled_height_error [OF W(2) H(2) [unfolded H(1)] m0 m(3) ex] obtain r where
    r: "f64_mul (Finite False vh) (f64_div (Finite False m) (Finite False vw)) = Finite False r"
       "0 \<le> r" "\<bar>r - vh * m / vw\<bar> \<le> 1 / 2"
    by blast
  have close: "\<bar>\<lfloor>r\<rfloor> - \<lfloor>vh * m / vw\<rfloor>\<bar> \<le> 1"
    using r(3) by (intro floor_diff_le_one) linarith
  have "\<lfloor>vh * m / vw\<rfloor> < 2 ^ 30" using ex by (simp add: floor_less_iff)
  then have rb: "\<lfloor>r\<rfloor> \<le> 2 ^ 30" using close by linarith
  have r0: "0 \<le> \<lfloor>r\<rfloor>" using r(2) by simp
  have mb: "\<lfloor>m\<rfloor> < 2 ^ 30" using m(2) by (simp add: floor_less_iff)
  have mf: "1 \<le> \<lfloor>m\<rfloor>" using m(1) by simp
  have "\<lfloor>m\<rfloor> * \<lfloor>r\<rfloor> \<le> 2 ^ 30 * 2 ^ 30" using mb rb r0 mf by (intro mult_mono) simp_all
  then have fits: "4 * \<lfloor>m\<rfloor> * \<lfloor>r\<rfloor> < 2 ^ 63" by simp
  have rw: "resolved_width s (Finite False m) = Finite False m"
    using m(1) by (simp add: resolved_width_def)
  have rh: "resolved_height s (Finite False m) (Finite True 1) = Finite False r"
    by (simp add: resolved_height_def rw W(1) H(1) r(1) del: f64_mul.simps f64_div.simps)
  have iw: "int_of_float64 (Finite False m) = Some \<lfloor>m\<rfloor>"
    using m0 mb by (intro int_of_float64_pos) simp_all
  have ih: "int_of_float64 (Finite False r) = Some \<lfloor>r\<rfloor>"
    using r(2) rb by (intro int_of_float64_pos) simp_all
  have sz: "buffer_size (asImage dt s' \<lfloor>m\<rfloor> \<lfloor>r\<rfloor>) = Some (\<lfloor>m\<rfloor>, \<lfloor>r\<rfloor>)"
    for s' :: "('a, 'b, 'c, 'd) SvgIcon"
    using mf r0 mb rb fits by (intro asImage_size) simp_all
  have "buffer_size (snd (AsImage dt s (Finite False m) (Finite True 1))) = Some (\<lfloor>m\<rfloor>, \<lfloor>r\<rfloor>)"
    by (simp add: AsImage_resolved rw rh iw ih sz Let_def del: int_of_float64.simps)
  then show ?thesis
    using close by (simp add: AsImageResize_eq_AsImage W(1) H(1) r(1) del: f64_mul.simps f64_div.simps)
qed

lemma div_24_11:
  "f64_div (Finite False 24) (Finite False 11) = Finite False (1228254443828317 / 562949953421312)"
  using round_float64_near [of 1 "24 / 11" 4913017775313268 False] by simp

lemma mul_55_div_24_11:
  "f64_mul (Finite False 55) (f64_div (Finite False 24) (Finite False 11))
     = Finite False (8444249301319679 / 70368744177664)"
  unfolding div_24_11
  using round_float64_near [of 6 "55 * (1228254443828317 / 562949953421312)" 8444249301319679 False]
  by simp

lemma floor_119: "\<lfloor>8444249301319679 / 70368744177664 :: rat\<rfloor> = 119"
  by (rule floor_unique) simp_all

text \<open>The theorem at a view box of 11 by 55 and the width 24; the exact height is 120.\<close>

theorem render_derived_height_witness:
  "buffer_size (snd (AsImage no_draw (icon_of_viewbox (origin_viewbox 11 55))
       (Finite False 24) (Finite True 1))) = Some (24, 119)
   \<and> \<bar>119 - \<lfloor>55 * 24 / 11 :: rat\<rfloor>\<bar> \<le> (1::int)"
  using render_derived_height [of "icon_of_viewbox (origin_viewbox 11 55)" 11 55 24 no_draw]
    mul_55_div_24_11 floor_119
  by (simp add: icon_of_viewbox_def origin_viewbox_def round_float64_numeral
      del: f64_mul.simps f64_div.simps)

text \<open>
  Claim C4 as stated fails: the view box of 11 by 55 at the width 24 has
  \<open>\<lfloor>55 \<cdot> 24 / 11\<rfloor> = 120\<close>, and the render returns a buffer 119 pixels high, because
  \<^verbatim>\<open>55 * (24.0 / 11)\<close> is \<open>119.99999999999999\<close> in float64.
\<close>

theorem render_derived_height_counterexample:
  "f64_lt (Finite False 0) (W (ViewBox (icon_of_viewbox (origin_viewbox 11 55))))
   \<and> buffer_size (snd (AsImage no_draw (icon_of_viewbox (origin_viewbox 11 55))
       (Finite False 24) (Finite True 1))) = Some (24, 119)
   \<and> \<lfloor>55 * 24 / 11 :: rat\<rfloor> = 120"
proof -
  let ?s = "icon_of_viewbox (origin_viewbox 11 55)"
  have vb: "W (ViewBox ?s) = Finite False 11" "H (ViewBox ?s) = Finite False 55"
    by (simp_all add: icon_of_viewbox_def origin_viewbox_def)
  have rw: "resolved_width ?s (Finite False 24) = Finite False 24"
    by (simp add: resolved_width_def)
  have rh: "resolved_height ?s (Finite False 24) (Finite True 1)
      = Finite False (8444249301319679 / 70368744177664)"
    by (simp add: resolved_height_def rw vb mul_55_div_24_11 del: f64_mul.simps f64_div.simps)
  have ih: "int_of_float64 (Finite False (8444249301319679 / 70368744177664)) = Some 119"
    using int_of_float64_pos [of "8444249301319679 / 70368744177664"] by (simp add: floor_119)
  have sz: "buffer_size (asImage no_draw s' 24 119) = Some (24, 119)"
    for s' :: "(unit, unit, unit, unit) SvgIcon"
    by (rule asImage_size) simp_all
  have iw: "int_of_float64 (Finite False 24) = Some 24" by simp
  have "buffer_size (snd (AsImage no_draw ?s (Finite False 24) (Finite True 1))) = Some (24, 119)"
    by (simp add: AsImage_resolved rw rh iw ih sz Let_def del: int_of_float64.simps)
  moreover have "\<lfloor>55 * 24 / 11 :: rat\<rfloor> = 120" by (rule floor_unique) simp_all
  ultimately show ?thesis by (simp add: vb)
qed


section \<open>Composing transforms\<close>

lemma whole_val_cases:
  assumes "whole_val x k n"
  obtains s where "x = Finite s (of_int \<bar>k\<bar>)" "0 < k \<longrightarrow> \<not> s" "k < 0 \<longrightarrow> s"
proof -
  from assms obtain s m where x: "x = Finite s m" and m: "0 \<le> m"
    and v: "(if s then - m else m) = of_int k"
    by (cases x) (auto simp: whole_val_def)
  have "m = of_int \<bar>k\<bar>" using m v by (auto split: if_splits)
  moreover have "0 < k \<longrightarrow> \<not> s" using m v by (auto split: if_splits)
  moreover have "k < 0 \<longrightarrow> s" using m v by (auto split: if_splits)
  ultimately show ?thesis using that x by blast
qed

lemma whole_val_Finite:
  assumes "0 \<le> j" "j \<le> 2 ^ 53" "j \<le> n" "(if s then - j else j) = k"
  shows "whole_val (Finite s (of_int j)) k n"
  using assms by (auto simp: whole_val_def round_float64_of_int)

lemma whole_val_mono: "whole_val x k n \<Longrightarrow> n \<le> n' \<Longrightarrow> whole_val x k n'"
  by (auto simp: whole_val_def)

lemma whole_mul:
  assumes x: "whole_val x a p" and y: "whole_val y b q" and pq: "p * q \<le> 2 ^ 53"
  shows "whole_val (f64_mul x y) (a * b) (p * q)"
proof -
  from x obtain s where xs: "x = Finite s (of_int \<bar>a\<bar>)" "0 < a \<longrightarrow> \<not> s" "a < 0 \<longrightarrow> s"
    by (rule whole_val_cases)
  from y obtain t where yt: "y = Finite t (of_int \<bar>b\<bar>)" "0 < b \<longrightarrow> \<not> t" "b < 0 \<longrightarrow> t"
    by (rule whole_val_cases)
  have ap: "\<bar>a\<bar> \<le> p" and bq: "\<bar>b\<bar> \<le> q" using x y by (simp_all add: whole_val_def)
  have ab: "\<bar>a * b\<bar> \<le> p * q"
    unfolding abs_mult using ap bq by (intro mult_mono) simp_all
  have r: "f64_mul x y = Finite (s \<noteq> t) (of_int \<bar>a * b\<bar>)"
    using round_float64_of_int [of "\<bar>a * b\<bar>" "s \<noteq> t"] ab pq
    by (simp add: xs(1) yt(1) abs_mult)
  have sign: "(if s \<noteq> t then - \<bar>a * b\<bar> else \<bar>a * b\<bar>) = a * b"
  proof (cases "a = 0 \<or> b = 0")
    case True
    then show ?thesis by auto
  next
    case False
    then consider "0 < a" "0 < b" | "0 < a" "b < 0" | "a < 0" "0 < b" | "a < 0" "b < 0"
      by linarith
    then show ?thesis
      using xs(2,3) yt(2,3)
      by cases (auto simp: abs_mult abs_of_pos abs_of_neg)
  qed
  show ?thesis unfolding r
    using ab pq sign by (intro whole_val_Finite) simp_all
qed

lemma whole_add:
  assumes x: "whole_val x a p" and y: "whole_val y b q" and pq: "p + q \<le> 2 ^ 53"
  shows "whole_val (f64_add x y) (a + b) (p + q)"
proof -
  from x obtain s where xs: "x = Finite s (of_int \<bar>a\<bar>)" "0 < a \<longrightarrow> \<not> s" "a < 0 \<longrightarrow> s"
    by (rule whole_val_cases)
  from y obtain t where yt: "y = Finite t (of_int \<bar>b\<bar>)" "0 < b \<longrightarrow> \<not> t" "b < 0 \<longrightarrow> t"
    by (rule whole_val_cases)
  have ap: "\<bar>a\<bar> \<le> p" and bq: "\<bar>b\<bar> \<le> q" using x y by (simp_all add: whole_val_def)
  have ab: "\<bar>a + b\<bar> \<le> p + q" using ap bq by linarith
  have vx: "valof x = of_int a" and vy: "valof y = of_int b"
    using x y by (simp_all add: whole_val_def)
  have v: "valof (Finite s (of_int \<bar>a\<bar>)) + valof (Finite t (of_int \<bar>b\<bar>)) = of_int (a + b)"
    using vx vy by (simp add: xs(1) yt(1))
  show ?thesis
  proof (cases "a + b = 0")
    case True
    then have "f64_add x y = Finite (s \<and> t) (of_int 0)"
      unfolding xs(1) yt(1) f64_add.simps v by (simp add: Let_def)
    moreover have "whole_val (Finite (s \<and> t) (of_int 0)) (a + b) (p + q)"
      using True ab pq by (intro whole_val_Finite) simp_all
    ultimately show ?thesis by simp
  next
    case False
    then have "f64_add x y = round_float64 (a + b < 0) (of_int \<bar>a + b\<bar>)"
      unfolding xs(1) yt(1) f64_add.simps v
      by (simp add: Let_def del: of_int_add flip: of_int_abs)
    also have "\<dots> = Finite (a + b < 0) (of_int \<bar>a + b\<bar>)"
      using ab pq by (intro round_float64_of_int) simp_all
    finally have r: "f64_add x y = Finite (a + b < 0) (of_int \<bar>a + b\<bar>)" .
    show ?thesis unfolding r
      using ab pq by (intro whole_val_Finite) auto
  qed
qed


lemma whole_Mult:
  assumes a: "whole_mat m1 i1 p" and b: "whole_mat m2 i2 q"
    and p: "0 \<le> p" and q: "0 \<le> q" and top: "2 * (p * q) + p \<le> 2 ^ 53"
  shows "whole_mat (Mult m1 m2) (imult i1 i2) (2 * (p * q) + p)"
proof -
  have pq0: "0 \<le> p * q" using p q by simp
  have pq: "p * q \<le> 2 ^ 53" "p * q + p * q \<le> 2 ^ 53" "p * q + p * q + p \<le> 2 ^ 53"
    using top pq0 p by linarith+
  have M: "whole_val (f64_mul x y) (j * k) (p * q)"
    if "whole_val x j p" "whole_val y k q" for x y j k
    using that pq(1) by (rule whole_mul)
  have S: "whole_val (f64_add x y) (j + k) (2 * (p * q) + p)"
    if "whole_val x j (p * q)" "whole_val y k (p * q)" for x y j k
    using whole_add [OF that pq(2)] p by (auto intro: whole_val_mono)
  have S3: "whole_val (f64_add (f64_add x y) z) (j + k + l) (2 * (p * q) + p)"
    if "whole_val x j (p * q)" "whole_val y k (p * q)" "whole_val z l p" for x y z j k l
    using whole_add [OF whole_add [OF that(1,2) pq(2)] that(3) pq(3)]
    by (auto intro: whole_val_mono)
  obtain a1 b1 c1 d1 e1 f1 where i1: "i1 = IMat a1 b1 c1 d1 e1 f1" by (cases i1)
  obtain a2 b2 c2 d2 e2 f2 where i2: "i2 = IMat a2 b2 c2 d2 e2 f2" by (cases i2)
  show ?thesis
    using a b unfolding i1 i2 by (simp add: Mult_def M S S3)
qed

lemma whole_upto_val: "whole_upto n x \<Longrightarrow> whole_val x \<lfloor>valof x\<rfloor> n"
  by (simp add: whole_upto_def whole_val_def)

lemma whole_matrix_imat:
  assumes "whole_matrix n m"
  obtains i where "whole_mat m i n"
proof
  show "whole_mat m (IMat \<lfloor>valof (A m)\<rfloor> \<lfloor>valof (B m)\<rfloor> \<lfloor>valof (C m)\<rfloor>
      \<lfloor>valof (D m)\<rfloor> \<lfloor>valof (E m)\<rfloor> \<lfloor>valof (F m)\<rfloor>) n"
    using assms by (simp add: whole_matrix_def whole_upto_val)
qed

text \<open>
  Exact products compose as the rational matrices do, which are associative.
\<close>

lemma exact_dot2_val:
  "exact_dot2 a b c d \<Longrightarrow>
     is_finite (f64_add (f64_mul a b) (f64_mul c d)) \<and>
     valof (f64_add (f64_mul a b) (f64_mul c d)) = valof a * valof b + valof c * valof d"
  by (simp add: exact_dot2_def exact_mul_def exact_add_def)

lemma exact_dot3_val:
  "exact_dot3 a b c d e \<Longrightarrow>
     is_finite (f64_add (f64_add (f64_mul a b) (f64_mul c d)) e) \<and>
     valof (f64_add (f64_add (f64_mul a b) (f64_mul c d)) e)
       = valof a * valof b + valof c * valof d + valof e"
  by (simp add: exact_dot3_def exact_dot2_def exact_mul_def exact_add_def)

lemma exact_Mult_values:
  assumes "exact_Mult a b"
  shows "finite_matrix (Mult a b)" "entries (Mult a b) = rmult (entries a) (entries b)"
  using assms
  by (auto simp: exact_Mult_def finite_matrix_def entries_def Mult_def
      dest!: exact_dot2_val exact_dot3_val)

lemma rmult_assoc: "rmult i (rmult j k) = rmult (rmult i j) k"
  by (cases i; cases j; cases k) (simp add: algebra_simps)

lemma finite_f64_eq: "is_finite x \<Longrightarrow> is_finite y \<Longrightarrow> valof x = valof y \<Longrightarrow> f64_eq x y"
  by (cases x; cases y) simp_all

lemma finite_values_eq:
  "finite_matrix x \<Longrightarrow> finite_matrix y \<Longrightarrow> entries x = entries y \<Longrightarrow> Matrix2D_eq x y"
  by (simp add: finite_matrix_def entries_def Matrix2D_eq_def finite_f64_eq)

text \<open>
  The products of matrices of whole numbers of magnitude at most \<open>2\<^sup>1\<^sup>6\<close> are exact: every
  entry of a product of three of them stays below \<open>2\<^sup>5\<^sup>3\<close>.
\<close>

lemma whole_exact_mul:
  assumes "whole_val x a p" "whole_val y b q" "p * q \<le> 2 ^ 53"
  shows "exact_mul x y"
  using whole_mul [OF assms] assms(1,2)
  by (simp add: exact_mul_def whole_val_def)

lemma whole_exact_add:
  assumes "whole_val x a p" "whole_val y b q" "p + q \<le> 2 ^ 53"
  shows "exact_add x y"
  using whole_add [OF assms] assms(1,2)
  by (simp add: exact_add_def whole_val_def)

lemma whole_exact_Mult:
  assumes a: "whole_mat m1 i1 p" and b: "whole_mat m2 i2 q"
    and p: "0 \<le> p" and q: "0 \<le> q" and top: "2 * (p * q) + p \<le> 2 ^ 53"
  shows "exact_Mult m1 m2"
proof -
  have pq0: "0 \<le> p * q" using p q by simp
  have pq: "p * q \<le> 2 ^ 53" "p * q + p * q \<le> 2 ^ 53" "p * q + p * q + p \<le> 2 ^ 53"
    using top pq0 p by linarith+
  have D2: "exact_dot2 x y z w"
    if "whole_val x j p" "whole_val y k q" "whole_val z l p" "whole_val w n q" for x y z w j k l n
    unfolding exact_dot2_def
    using whole_exact_mul [OF that(1,2) pq(1)] whole_exact_mul [OF that(3,4) pq(1)]
      whole_exact_add [OF whole_mul [OF that(1,2) pq(1)] whole_mul [OF that(3,4) pq(1)] pq(2)]
    by simp
  have D3: "exact_dot3 x y z w v"
    if "whole_val x j p" "whole_val y k q" "whole_val z l p" "whole_val w n q" "whole_val v r p"
    for x y z w v j k l n r
    unfolding exact_dot3_def
    using D2 [OF that(1-4)]
      whole_exact_add [OF whole_add [OF whole_mul [OF that(1,2) pq(1)]
        whole_mul [OF that(3,4) pq(1)] pq(2)] that(5) pq(3)]
    by simp
  obtain a1 b1 c1 d1 e1 f1 where i1: "i1 = IMat a1 b1 c1 d1 e1 f1" by (cases i1)
  obtain a2 b2 c2 d2 e2 f2 where i2: "i2 = IMat a2 b2 c2 d2 e2 f2" by (cases i2)
  show ?thesis
    using a b unfolding i1 i2 exact_Mult_def by (auto intro: D2 D3)
qed

lemma whole_matrices_exact:
  assumes t: "whole_matrix (2 ^ 16) t"
    and m1: "whole_matrix (2 ^ 16) m1" and m2: "whole_matrix (2 ^ 16) m2"
  shows "exact_Mult m1 t \<and> exact_Mult m2 (Mult m1 t)
       \<and> exact_Mult m2 m1 \<and> exact_Mult (Mult m2 m1) t"
proof -
  from t obtain it where it: "whole_mat t it (2 ^ 16)" by (rule whole_matrix_imat)
  from m1 obtain i1 where i1: "whole_mat m1 i1 (2 ^ 16)" by (rule whole_matrix_imat)
  from m2 obtain i2 where i2: "whole_mat m2 i2 (2 ^ 16)" by (rule whole_matrix_imat)
  have step1: "whole_mat (Mult m1 t) (imult i1 it) (2 * (2 ^ 16 * 2 ^ 16) + 2 ^ 16)"
    using i1 it by (rule whole_Mult) simp_all
  have step2: "whole_mat (Mult m2 m1) (imult i2 i1) (2 * (2 ^ 16 * 2 ^ 16) + 2 ^ 16)"
    using i2 i1 by (rule whole_Mult) simp_all
  have "exact_Mult m1 t" using i1 it by (rule whole_exact_Mult) simp_all
  moreover have "exact_Mult m2 (Mult m1 t)" using i2 step1 by (rule whole_exact_Mult) simp_all
  moreover have "exact_Mult m2 m1" using i2 i1 by (rule whole_exact_Mult) simp_all
  moreover have "exact_Mult (Mult m2 m1) t" using step2 it by (rule whole_exact_Mult) simp_all
  ultimately show ?thesis by simp
qed

lemma round_float64_half: "round_float64 s (1 / 2) = Finite s (1 / 2)"
  using round_float64_exact [of 1 "- 1" s] by simp

lemma round_float64_half_of_int:
  assumes "0 \<le> k" "k \<le> 2 ^ 52"
  shows "round_float64 s (of_int k / 2) = Finite s (of_int k / 2)"
proof (cases "k = 0")
  case True
  then show ?thesis by (simp add: round_float64_def)
next
  case False
  with assms have k: "0 < k" "k < 2 ^ 53" by simp_all
  have "(of_int k :: rat) < of_int (2 ^ 53)" using k(2) by (simp only: of_int_less_iff)
  then have "(of_int k :: rat) * 2 powi (- 1) < 2 ^ 1024" by (simp add: power_int_minus_divide)
  with round_float64_exact [OF k, of "- 1" s] show ?thesis
    by (simp add: power_int_minus_divide)
qed

lemma round_float64_halves:
  "numeral n \<le> (2::int) ^ 52 \<Longrightarrow> round_float64 s (numeral n / 2) = Finite s (numeral n / 2)"
  using round_float64_half_of_int [of "numeral n" s] by simp

lemma exact_example:
  "exact_Mult (scaling (1 / 2) (1 / 2)) (translation 5 7)
   \<and> exact_Mult (translation 3 4) (Mult (scaling (1 / 2) (1 / 2)) (translation 5 7))
   \<and> exact_Mult (translation 3 4) (scaling (1 / 2) (1 / 2))
   \<and> exact_Mult (Mult (translation 3 4) (scaling (1 / 2) (1 / 2))) (translation 5 7)"
  by (simp add: exact_Mult_def exact_dot2_def exact_dot3_def exact_mul_def exact_add_def
      Mult_def scaling_def translation_def round_float64_one round_float64_zero
      round_float64_numeral round_float64_half round_float64_halves)

text \<open>
  Claim C7, as amended. \<^verbatim>\<open>TransformIcon\<close> with \<open>m1\<close> and then with \<open>m2\<close> leaves the
  transform \<open>m2 \<cdot> (m1 \<cdot> t)\<close>, and a single call with \<^verbatim>\<open>m2.Mult(m1)\<close> leaves
  \<open>(m2 \<cdot> m1) \<cdot> t\<close>, each product computed by \<^verbatim>\<open>Mult\<close> in float64. When none of
  the four products \<open>m1 \<cdot> t\<close>, \<open>m2 \<cdot> (m1 \<cdot> t)\<close>, \<open>m2 \<cdot> m1\<close> and \<open>(m2 \<cdot> m1) \<cdot> t\<close>
  rounds, that is, every float64 product and sum in them is finite and exact, the two
  transforms are equal, field by field under \<^verbatim>\<open>==\<close>.
\<close>

theorem TransformIcon_twice_exact:
  "Transform (TransformIcon (TransformIcon s m1) m2) = Mult m2 (Mult m1 (Transform s))
   \<and> Transform (TransformIcon s (Mult m2 m1)) = Mult (Mult m2 m1) (Transform s)
   \<and> (exact_Mult m1 (Transform s) \<and> exact_Mult m2 (Mult m1 (Transform s))
        \<and> exact_Mult m2 m1 \<and> exact_Mult (Mult m2 m1) (Transform s)
        \<longrightarrow> Matrix2D_eq (Transform (TransformIcon (TransformIcon s m1) m2))
                        (Transform (TransformIcon s (Mult m2 m1))))"
proof -
  have "Matrix2D_eq (Mult m2 (Mult m1 (Transform s))) (Mult (Mult m2 m1) (Transform s))"
    if e1: "exact_Mult m1 (Transform s)" and e2: "exact_Mult m2 (Mult m1 (Transform s))"
      and e3: "exact_Mult m2 m1" and e4: "exact_Mult (Mult m2 m1) (Transform s)"
  proof -
    have "entries (Mult m2 (Mult m1 (Transform s)))
        = rmult (entries m2) (rmult (entries m1) (entries (Transform s)))"
      by (simp only: exact_Mult_values(2) [OF e2] exact_Mult_values(2) [OF e1])
    also have "\<dots> = rmult (rmult (entries m2) (entries m1)) (entries (Transform s))"
      by (rule rmult_assoc)
    also have "\<dots> = entries (Mult (Mult m2 m1) (Transform s))"
      by (simp only: exact_Mult_values(2) [OF e4] exact_Mult_values(2) [OF e3])
    finally show ?thesis
      using exact_Mult_values(1) [OF e2] exact_Mult_values(1) [OF e4]
      by (intro finite_values_eq)
  qed
  then show ?thesis by (simp add: TransformIcon_def)
qed

text \<open>
  The theorem at the translation by \<open>(5, 7)\<close> as the icon's transform, the scaling by
  \<open>1/2\<close> as \<open>m1\<close> and the translation by \<open>(3, 4)\<close> as \<open>m2\<close>.
\<close>

theorem TransformIcon_twice_exact_witness:
  "Matrix2D_eq
     (Transform (TransformIcon (TransformIcon
        ((icon_of_viewbox (origin_viewbox 10 10)) \<lparr> Transform := translation 5 7 \<rparr>)
        (scaling (1 / 2) (1 / 2))) (translation 3 4)))
     (Transform (TransformIcon
        ((icon_of_viewbox (origin_viewbox 10 10)) \<lparr> Transform := translation 5 7 \<rparr>)
        (Mult (translation 3 4) (scaling (1 / 2) (1 / 2)))))"
proof -
  let ?s = "(icon_of_viewbox (origin_viewbox 10 10)) \<lparr> Transform := translation 5 7 \<rparr>"
  have t: "Transform ?s = translation 5 7" by simp
  from TransformIcon_twice_exact [of ?s "scaling (1 / 2) (1 / 2)" "translation 3 4"]
    exact_example
  show ?thesis unfolding t by blast
qed

lemma round_float64_2p53_plus_1:
  "round_float64 False 9007199254740993 = Finite False 9007199254740992"
  using round_float64_tie [of 53 9007199254740993 4503599627370496 False] by simp

lemma round_float64_2p53_plus_2:
  "round_float64 False 9007199254740994 = Finite False 9007199254740994"
  using round_float64_exact [of 4503599627370497 1 False] by simp

text \<open>
  Claim C7 as stated fails, because float64 addition is not associative: from the
  translation by \<open>2\<^sup>5\<^sup>3\<close>, two calls with the translation by 1 leave \<open>E = 2\<^sup>5\<^sup>3\<close> (each
  \<open>2\<^sup>5\<^sup>3 + 1\<close> rounds back to \<open>2\<^sup>5\<^sup>3\<close>), and one call with their product, the translation
  by 2, leaves \<open>E = 2\<^sup>5\<^sup>3 + 2\<close>.
\<close>

theorem TransformIcon_twice_counterexample:
  "E (Transform (TransformIcon (TransformIcon
        ((icon_of_viewbox (origin_viewbox 10 10)) \<lparr> Transform := translation 9007199254740992 0 \<rparr>)
        (translation 1 0)) (translation 1 0))) = Finite False 9007199254740992
   \<and> E (Transform (TransformIcon
        ((icon_of_viewbox (origin_viewbox 10 10)) \<lparr> Transform := translation 9007199254740992 0 \<rparr>)
        (Mult (translation 1 0) (translation 1 0)))) = Finite False 9007199254740994
   \<and> \<not> Matrix2D_eq
     (Transform (TransformIcon (TransformIcon
        ((icon_of_viewbox (origin_viewbox 10 10)) \<lparr> Transform := translation 9007199254740992 0 \<rparr>)
        (translation 1 0)) (translation 1 0)))
     (Transform (TransformIcon
        ((icon_of_viewbox (origin_viewbox 10 10)) \<lparr> Transform := translation 9007199254740992 0 \<rparr>)
        (Mult (translation 1 0) (translation 1 0))))"
  by (simp add: TransformIcon_def Mult_def translation_def Matrix2D_eq_def
      round_float64_one round_float64_zero round_float64_numeral
      round_float64_2p53_plus_1 round_float64_2p53_plus_2)

section \<open>Saving\<close>

lemma file_Write_fds: "file_Write fs f p = (fs', n, e) \<Longrightarrow> fds fs' = fds fs"
  by (auto simp: file_Write_def Let_def split: option.splits)

lemma file_Write_ok:
  assumes "file_Write fs f p = (fs', n, None)" "map_of (fds fs) f = Some name"
    "files fs name = Some pre"
  shows "files fs' name = Some (pre @ p)"
  using assms by (auto simp: file_Write_def Let_def split: if_splits)

lemma Flush_fds: "Flush fs b = (fs', b', e) \<Longrightarrow> fds fs' = fds fs \<and> wr b' = wr b"
  by (auto simp: Flush_def dest: file_Write_fds split: option.splits if_splits prod.splits)

lemma Flush_ok:
  assumes "Flush fs b = (fs', b', None)" "map_of (fds fs) (wr b) = Some name"
    "files fs name = Some pre"
  shows "files fs' name = Some (pre @ buf b) \<and> buf b' = [] \<and> err b' = None"
  using assms
  by (auto simp: Flush_def dest: file_Write_ok split: option.splits if_splits prod.splits)

lemma Flush_failed: "Flush fs b = (fs', b', Some e) \<Longrightarrow> err b' = Some e"
  by (auto simp: Flush_def split: option.splits if_splits prod.splits)

lemma bufio_Write_failed: "err b = Some e \<Longrightarrow> bufio_Write fs b p = (fs, b, Some e)"
  by (simp add: bufio_Write.simps)

lemma bufio_Write_fds:
  "bufio_Write fs b p = (fs', b', r) \<Longrightarrow> fds fs' = fds fs \<and> wr b' = wr b"
proof (induction fs b p rule: bufio_Write.induct)
  case (1 fs b p)
  show ?case
  proof (cases "Available b < length p \<and> err b = None")
    case False
    with "1.prems" show ?thesis
      by (auto simp: bufio_Write.simps [of fs b p] split: option.splits)
  next
    case True
    show ?thesis
    proof (cases "buf b = []")
      case e: True
      obtain fs1 n e1 where w: "file_Write fs (wr b) p = (fs1, n, e1)"
        by (cases "file_Write fs (wr b) p")
      with "1.prems" True e have "bufio_Write fs1 (b\<lparr> err := e1 \<rparr>) (drop n p) = (fs', b', r)"
        by (simp add: bufio_Write.simps [of fs b p])
      from "1.IH"(1) [OF True e w [symmetric] refl this] file_Write_fds [OF w]
      show ?thesis by simp
    next
      case ne: False
      define n where "n = min (Available b) (length p)"
      define b1 where "b1 = b\<lparr> buf := buf b @ take n p \<rparr>"
      obtain fs1 b2 e1 where f: "Flush fs b1 = (fs1, b2, e1)" by (cases "Flush fs b1")
      with "1.prems" True ne have "bufio_Write fs1 b2 (drop n p) = (fs', b', r)"
        by (simp add: bufio_Write.simps [of fs b p] Let_def n_def b1_def)
      from "1.IH"(2) [OF True ne n_def b1_def f [symmetric] refl this] Flush_fds [OF f]
      show ?thesis by (simp add: b1_def)
    qed
  qed
qed

lemma bufio_Write_ok:
  "bufio_Write fs b p = (fs', b', None) \<Longrightarrow> map_of (fds fs) (wr b) = Some name \<Longrightarrow>
   files fs name = Some pre \<Longrightarrow>
   (\<exists>pre'. files fs' name = Some pre' \<and> pre' @ buf b' = pre @ buf b @ p) \<and> err b' = None"
proof (induction fs b p arbitrary: pre rule: bufio_Write.induct)
  case (1 fs b p)
  show ?case
  proof (cases "Available b < length p \<and> err b = None")
    case False
    with "1.prems" show ?thesis
      by (auto simp: bufio_Write.simps [of fs b p] split: option.splits)
  next
    case True
    show ?thesis
    proof (cases "buf b = []")
      case e: True
      obtain fs1 n e1 where w: "file_Write fs (wr b) p = (fs1, n, e1)"
        by (cases "file_Write fs (wr b) p")
      with "1.prems"(1) True e have rec: "bufio_Write fs1 (b\<lparr> err := e1 \<rparr>) (drop n p) = (fs', b', None)"
        by (simp add: bufio_Write.simps [of fs b p])
      have e1: "e1 = None"
      proof (cases e1)
        case (Some x)
        with rec bufio_Write_failed [of "b\<lparr> err := e1 \<rparr>" x fs1 "drop n p"] show ?thesis by simp
      qed simp
      with file_Write_result [OF w] have n: "n = length p" by simp
      have fl: "files fs1 name = Some (pre @ p)"
        using w "1.prems"(2,3) unfolding e1 by (rule file_Write_ok)
      have fd: "map_of (fds fs1) (wr (b\<lparr> err := e1 \<rparr>)) = Some name"
        using file_Write_fds [OF w] "1.prems"(2) by simp
      from "1.IH"(1) [OF True e w [symmetric] refl rec fd fl]
      show ?thesis using e by (simp add: n e1)
    next
      case ne: False
      define n where "n = min (Available b) (length p)"
      define b1 where "b1 = b\<lparr> buf := buf b @ take n p \<rparr>"
      obtain fs1 b2 e1 where f: "Flush fs b1 = (fs1, b2, e1)" by (cases "Flush fs b1")
      with "1.prems"(1) True ne have rec: "bufio_Write fs1 b2 (drop n p) = (fs', b', None)"
        by (simp add: bufio_Write.simps [of fs b p] Let_def n_def b1_def)
      have e1: "e1 = None"
      proof (cases e1)
        case (Some x)
        with f have "err b2 = Some x" by (simp add: Flush_failed)
        with rec bufio_Write_failed [of b2 x fs1 "drop n p"] show ?thesis by simp
      qed simp
      have fl: "files fs1 name = Some (pre @ buf b1) \<and> buf b2 = [] \<and> err b2 = None"
        using f "1.prems"(2,3) unfolding e1 by (intro Flush_ok) (simp_all add: b1_def)
      have fd: "map_of (fds fs1) (wr b2) = Some name"
        using Flush_fds [OF f] "1.prems"(2) by (simp add: b1_def)
      from "1.IH"(2) [OF True ne n_def b1_def f [symmetric] refl rec fd] fl
      show ?thesis by (auto simp: b1_def)
    qed
  qed
qed

lemma write_chunks_fds:
  "write_chunks fs b cs = (fs', b', r) \<Longrightarrow> fds fs' = fds fs \<and> wr b' = wr b"
proof (induction cs arbitrary: fs b)
  case Nil
  then show ?case by simp
next
  case (Cons c cs)
  obtain fs1 b1 r1 where w: "bufio_Write fs b c = (fs1, b1, r1)" by (cases "bufio_Write fs b c")
  show ?case
  proof (cases r1)
    case None
    with Cons.prems w have "write_chunks fs1 b1 cs = (fs', b', r)" by simp
    from Cons.IH [OF this] bufio_Write_fds [OF w] show ?thesis by simp
  next
    case (Some e)
    with Cons.prems w bufio_Write_fds [OF w] show ?thesis by auto
  qed
qed

lemma write_chunks_ok:
  "write_chunks fs b cs = (fs', b', None) \<Longrightarrow> map_of (fds fs) (wr b) = Some name \<Longrightarrow>
   files fs name = Some pre \<Longrightarrow> err b = None \<Longrightarrow>
   (\<exists>pre'. files fs' name = Some pre' \<and> pre' @ buf b' = pre @ buf b @ concat cs) \<and> err b' = None"
proof (induction cs arbitrary: fs b pre)
  case Nil
  then show ?case by simp
next
  case (Cons c cs)
  obtain fs1 b1 r1 where w: "bufio_Write fs b c = (fs1, b1, r1)" by (cases "bufio_Write fs b c")
  from Cons.prems(1) w have r1: "r1 = None" by (cases r1) auto
  with Cons.prems(1) w have rec: "write_chunks fs1 b1 cs = (fs', b', None)" by simp
  from bufio_Write_ok [OF w [unfolded r1] Cons.prems(2,3)] obtain pre1 where
    p1: "files fs1 name = Some pre1" "pre1 @ buf b1 = pre @ buf b @ c" "err b1 = None" by blast
  have fd: "map_of (fds fs1) (wr b1) = Some name"
    using bufio_Write_fds [OF w] Cons.prems(2) by simp
  from Cons.IH [OF rec fd p1(1) p1(3)] obtain pre' where
    "files fs' name = Some pre'" "pre' @ buf b' = pre1 @ buf b1 @ concat cs" "err b' = None"
    by blast
  then show ?case using p1(2) by simp
qed


lemma foldr_max_ge: "x \<in> set xs \<Longrightarrow> x \<le> foldr max xs (k::nat)"
  by (induction xs) auto

lemma fresh_fd: "filter (\<lambda>e. fst e \<noteq> Suc (foldr max (map fst xs) k)) xs = xs"
proof -
  have "fst e \<noteq> Suc (foldr max (map fst xs) k)" if "e \<in> set xs" for e
    using foldr_max_ge [of "fst e" "map fst xs" k] that by force
  then show ?thesis by (simp add: filter_id_conv)
qed

lemma Close_after_Create:
  assumes "os_Create fs name = (fs0, Inr f)" "fds fs1 = fds fs0"
  shows "fds (fst (file_Close fs1 f)) = fds fs \<and> files (fst (file_Close fs1 f)) = files fs1"
  using assms
  by (auto simp: os_Create_def file_Close_def Let_def fresh_fd split: if_splits)

lemma Create_opens:
  assumes "os_Create fs name = (fs0, Inr f)"
  shows "map_of (fds fs0) f = Some name" "files fs0 name = Some []"
  using assms by (auto simp: os_Create_def Let_def split: if_splits)

lemma Create_fails: "os_Create fs name = (fs0, Inl e) \<Longrightarrow> fs0 = fs"
  by (auto simp: os_Create_def Let_def split: if_splits)

lemma Encode_fds: "Encode enc fs w m = (fs', w', r) \<Longrightarrow> fds fs' = fds fs \<and> wr w' = wr w"
  by (auto simp: Encode_def dest: write_chunks_fds split: prod.splits option.splits)

lemma Encode_ok:
  assumes "Encode enc fs w m = (fs', w', None)" "map_of (fds fs) (wr w) = Some name"
    "files fs name = Some pre" "err w = None"
  shows "(\<exists>pre'. files fs' name = Some pre' \<and> pre' @ buf w' = pre @ buf w @ concat (fst (enc m)))
       \<and> err w' = None"
proof -
  obtain chunks r where e: "enc m = (chunks, r)" by (cases "enc m")
  obtain fs1 w1 r1 where w: "write_chunks fs w chunks = (fs1, w1, r1)"
    by (cases "write_chunks fs w chunks")
  from assms(1) e w have "r1 = None" "fs1 = fs'" "w1 = w'"
    by (auto simp: Encode_def split: option.splits)
  with write_chunks_ok [OF _ assms(2,3,4), of chunks fs' w'] w e show ?thesis by simp
qed

lemma saveImage_outcome:
  "fds (fst (saveImage cs fs filePath m asPng)) = fds fs
   \<and> (snd (saveImage cs fs filePath m asPng) = None \<longrightarrow>
        files (fst (saveImage cs fs filePath m asPng)) filePath = Some (encoded cs m asPng))"
proof -
  define enc where "enc = (if asPng then png_Encode cs else jpeg_Encode cs)"
  obtain fs0 c where c: "os_Create fs filePath = (fs0, c)" by (cases "os_Create fs filePath")
  show ?thesis
  proof (cases c)
    case (Inl e)
    with c Create_fails [of fs filePath fs0 e] show ?thesis by (simp add: saveImage_def)
  next
    case (Inr f)
    note cr = c [unfolded Inr]
    obtain fs1 w1 r1 where en: "Encode enc fs0 (NewWriter f) m = (fs1, w1, r1)"
      by (cases "Encode enc fs0 (NewWriter f) m")
    have en': "(if asPng then Encode (png_Encode cs) fs0 (NewWriter f) m
                else Encode (jpeg_Encode cs) fs0 (NewWriter f) m) = (fs1, w1, r1)"
      using en by (cases asPng) (simp_all add: enc_def)
    have fd1: "fds fs1 = fds fs0" "wr w1 = f"
      using Encode_fds [OF en] by (simp_all add: NewWriter_def)
    show ?thesis
    proof (cases r1)
      case (Some e)
      then have "saveImage cs fs filePath m asPng = (fst (file_Close fs1 f), Some e)"
        by (simp add: saveImage_def cr en' Let_def)
      with Close_after_Create [OF cr fd1(1)] show ?thesis by simp
    next
      case None
      obtain fs2 w2 r2 where fl: "Flush fs1 w1 = (fs2, w2, r2)" by (cases "Flush fs1 w1")
      have sv: "saveImage cs fs filePath m asPng = (fst (file_Close fs2 f), r2)"
        using None by (simp add: saveImage_def cr en' fl Let_def split: option.splits)
      have fd2: "fds fs2 = fds fs0" using Flush_fds [OF fl] fd1 by simp
      note cl = Close_after_Create [OF cr fd2]
      have "files fs2 filePath = Some (encoded cs m asPng)" if "r2 = None"
      proof -
        from Encode_ok [OF en [unfolded None] _ Create_opens(2) [OF cr]] Create_opens(1) [OF cr]
        obtain pre' where p: "files fs1 filePath = Some pre'"
          "pre' @ buf w1 = concat (fst (enc m))" "err w1 = None"
          by (auto simp: NewWriter_def)
        have "map_of (fds fs1) (wr w1) = Some filePath"
          using Create_opens(1) [OF cr] fd1 by simp
        from Flush_ok [OF fl [unfolded that] this p(1)] p(2)
        show ?thesis by (simp add: encoded_def enc_def)
      qed
      with sv cl show ?thesis by simp
    qed
  qed
qed

lemma saveImage_example:
  "saveImage two_chunks empty_disk ''a.png'' one_pixel True =
     (empty_disk\<lparr> files := [''a.png'' \<mapsto> [1, 2, 3]], room := 97 \<rparr>, None)"
  by (simp add: saveImage_def os_Create_def empty_disk_def two_chunks_def Encode_def
      NewWriter_def bufio_Write.simps Available_def defaultBufSize_def Flush_def file_Write_def
      file_Close_def Let_def)

text \<open>
  Claim C8. Whatever \<^verbatim>\<open>saveImage\<close> returns, the table of open descriptors is afterwards
  what it was before the call: the descriptor it opened is closed on every path. When
  it returns no error, the file at the path holds exactly the bytes the encoder wrote,
  all of them: nothing is left in the buffer. The callers
  \<^verbatim>\<open>SaveAsPng\<close> and \<^verbatim>\<open>SaveAsJpeg\<close> of both files leave the table as it was, too; when the
  render panics they open nothing.
\<close>

theorem saveImage_flushes_and_releases:
  "fds (fst (saveImage cs fs filePath m asPng)) = fds fs
   \<and> (snd (saveImage cs fs filePath m asPng) = None \<longrightarrow>
        files (fst (saveImage cs fs filePath m asPng)) filePath = Some (encoded cs m asPng))
   \<and> fds (fst (SaveAsPng dt cs fs s filePath w h)) = fds fs
   \<and> fds (fst (SaveAsJpeg dt cs fs s filePath w h)) = fds fs
   \<and> fds (fst (SaveAsPngResized dt cs fs s filePath w h)) = fds fs
   \<and> fds (fst (SaveAsJpegResized dt cs fs s filePath w h)) = fds fs
   \<and> fds (fst (SaveAsPng' dt cs fs s filePath)) = fds fs
   \<and> fds (fst (SaveAsJpeg' dt cs fs s filePath)) = fds fs"
proof -
  have rel: "fds (fst (saveImage cs fs filePath m' b)) = fds fs" for m' b
    using saveImage_outcome [of cs fs filePath m' b] by blast
  have rel': "fds fs' = fds fs" if "saveImage cs fs filePath m' b = (fs', r)" for m' b fs' r
    using rel [of m' b] that by simp
  have "fds (fst (SaveAsPng dt cs fs s filePath w h)) = fds fs"
    by (auto simp: SaveAsPng_def dest: rel' split: prod.splits sum.splits)
  moreover have "fds (fst (SaveAsJpeg dt cs fs s filePath w h)) = fds fs"
    by (auto simp: SaveAsJpeg_def dest: rel' split: prod.splits sum.splits)
  moreover have "fds (fst (SaveAsPngResized dt cs fs s filePath w h)) = fds fs"
    by (auto simp: SaveAsPngResized_def dest: rel' split: prod.splits sum.splits)
  moreover have "fds (fst (SaveAsJpegResized dt cs fs s filePath w h)) = fds fs"
    by (auto simp: SaveAsJpegResized_def dest: rel' split: prod.splits sum.splits)
  moreover have "fds (fst (SaveAsPng' dt cs fs s filePath)) = fds fs"
    by (auto simp: SaveAsPng'_def dest: rel' split: prod.splits sum.splits)
  moreover have "fds (fst (SaveAsJpeg' dt cs fs s filePath)) = fds fs"
    by (auto simp: SaveAsJpeg'_def dest: rel' split: prod.splits sum.splits)
  ultimately show ?thesis using saveImage_outcome [of cs fs filePath m asPng] by blast
qed

text \<open>The theorem at the example: the call succeeds and the file holds the three bytes.\<close>

theorem saveImage_flushes_and_releases_witness:
  "snd (saveImage two_chunks empty_disk ''a.png'' one_pixel True) = None
   \<and> files (fst (saveImage two_chunks empty_disk ''a.png'' one_pixel True)) ''a.png''
       = Some [1, 2, 3]
   \<and> fds (fst (saveImage two_chunks empty_disk ''a.png'' one_pixel True)) = []"
  using saveImage_flushes_and_releases [of two_chunks empty_disk "''a.png''" one_pixel True]
    saveImage_example
  by (simp add: encoded_def two_chunks_def empty_disk_def)

end
